theory Spec2Isabelle
  imports Main "HOL-Library.Word" "HOL-Library.Sublist"
begin

text \<open>
  The feed directory page: \<^verbatim>\<open>FeedDirectory\<close> of App.tsx, and the \<^verbatim>\<open>complete\<close> handler of
  the second source file where it differs. The pure parts (the row-to-feed mapping, the
  search filter, the two link helpers) are functions on JavaScript strings; what may throw
  returns the thrown value or the result; the load sequence passes the component's state
  and the network along. The browser's URL parser, the base URL, the CSV parser and the
  engine's Unicode tables are parameters.
\<close>

section \<open>JavaScript strings and values\<close>

text \<open>
  A JavaScript string is a sequence of UTF-16 code units, so it is modelled as a list of
  16-bit words. \<open>lit\<close> turns an ASCII literal of the source into its code units.
\<close>

type_synonym jsstring = "16 word list"

definition lit :: "string \<Rightarrow> jsstring" where
  "lit s = map of_char s"

text \<open>A string is truthy exactly when it is not empty.\<close>

definition truthy :: "jsstring \<Rightarrow> bool" where
  "truthy s = (s \<noteq> [])"

text \<open>
  \<^verbatim>\<open>a || b\<close> where \<^verbatim>\<open>a\<close> is a property read of a CSV row: the property is
  \<^verbatim>\<open>undefined\<close> (\<open>None\<close>) or a string.
\<close>

definition or_else :: "jsstring option \<Rightarrow> jsstring \<Rightarrow> jsstring" where
  "or_else a b = (case a of None \<Rightarrow> b | Some s \<Rightarrow> if truthy s then s else b)"

text \<open>\<^verbatim>\<open>t.startsWith(s)\<close> and \<^verbatim>\<open>t.includes(s)\<close>, both on code units.\<close>

fun startsWith :: "jsstring \<Rightarrow> jsstring \<Rightarrow> bool" where
  "startsWith t [] = True"
| "startsWith [] (c # s) = False"
| "startsWith (d # t) (c # s) = (d = c \<and> startsWith t s)"

fun includes_js :: "jsstring \<Rightarrow> jsstring \<Rightarrow> bool" where
  "includes_js [] s = startsWith [] s"
| "includes_js (d # t) s = (startsWith (d # t) s \<or> includes_js t s)"

text \<open>
  The decimal digits of an array index or an HTTP status, as a template literal
  \<^verbatim>\<open>${index}\<close> prints a non-negative integer.
\<close>

fun digits10 :: "nat \<Rightarrow> jsstring" where
  "digits10 n = (if n < 10 then [of_nat (48 + n)] else digits10 (n div 10) @ [of_nat (48 + n mod 10)])"

declare digits10.simps [simp del]

text \<open>
  Values a \<^verbatim>\<open>throw\<close> or a rejected promise carries. \<open>Error\<close>, \<open>TypeError\<close> and
  \<open>URIError\<close> are instances of \<^verbatim>\<open>Error\<close>; \<open>NonError\<close> is any other thrown value.
  The message of the \<open>URIError\<close> of \<^verbatim>\<open>encodeURIComponent\<close> is left to the engine and is
  not modelled; \<^verbatim>\<open>loadFeeds\<close>, which reads messages, never catches one.
\<close>

datatype thrown = Error jsstring | TypeError jsstring | URIError | NonError

fun instanceof_Error :: "thrown \<Rightarrow> bool" where
  "instanceof_Error NonError = False"
| "instanceof_Error e = True"

fun message :: "thrown \<Rightarrow> jsstring" where
  "message (Error m) = m"
| "message (TypeError m) = m"
| "message URIError = []"
| "message NonError = []"

text \<open>\<^verbatim>\<open>try { body } catch (e) { handler }\<close> on results that are a thrown value or a value.\<close>

definition try_catch :: "thrown + 'a \<Rightarrow> (thrown \<Rightarrow> thrown + 'a) \<Rightarrow> thrown + 'a" where
  "try_catch body handler = (case body of Inl e \<Rightarrow> handler e | Inr r \<Rightarrow> Inr r)"

section \<open>Code points\<close>

text \<open>
  ECMA-262, 6.1.4: a code unit from 0xD800 to 0xDBFF is a leading surrogate, one from 0xDC00
  to 0xDFFF a trailing surrogate. \<open>surrogate_pair\<close> is UTF16SurrogatePairToCodePoint;
  \<open>StringToCodePoints\<close> reads a string as code points, an unpaired surrogate being a code
  point of its own; \<open>UTF16EncodeCodePoint\<close> and \<open>CodePointsToString\<close> go back.
\<close>

definition leading_surrogate :: "16 word \<Rightarrow> bool" where
  "leading_surrogate c = (0xD800 \<le> c \<and> c \<le> 0xDBFF)"

definition trailing_surrogate :: "16 word \<Rightarrow> bool" where
  "trailing_surrogate c = (0xDC00 \<le> c \<and> c \<le> 0xDFFF)"

definition surrogate_pair :: "16 word \<Rightarrow> 16 word \<Rightarrow> nat" where
  "surrogate_pair lead trail = (unat lead - 0xD800) * 0x400 + (unat trail - 0xDC00) + 0x10000"

fun StringToCodePoints :: "jsstring \<Rightarrow> nat list" where
  "StringToCodePoints [] = []"
| "StringToCodePoints [c] = [unat c]"
| "StringToCodePoints (c # d # rest) =
     (if leading_surrogate c \<and> trailing_surrogate d
      then surrogate_pair c d # StringToCodePoints rest
      else unat c # StringToCodePoints (d # rest))"

definition UTF16EncodeCodePoint :: "nat \<Rightarrow> jsstring" where
  "UTF16EncodeCodePoint cp =
     (if cp < 0x10000 then [of_nat cp]
      else [of_nat ((cp - 0x10000) div 0x400 + 0xD800), of_nat ((cp - 0x10000) mod 0x400 + 0xDC00)])"

definition CodePointsToString :: "nat list \<Rightarrow> jsstring" where
  "CodePointsToString cps = concat (map UTF16EncodeCodePoint cps)"

section \<open>String.prototype.toLowerCase\<close>

text \<open>
  \<^verbatim>\<open>toLowerCase\<close> (ECMA-262, 22.1.3.28) reads the string as code points, lower-cases them
  by the Unicode default case conversion and turns the result into a string again. The
  conversion reads three tables of the Unicode Character Database, which are data of the
  engine and a parameter here: the lowercase mapping of a code point (UnicodeData.txt and
  the unconditional mappings of SpecialCasing.txt; the code point itself when it has
  none) and the properties Cased and Case_Ignorable.
\<close>

record UCD =
  Lowercase_Mapping :: "nat \<Rightarrow> nat list"
  Cased :: "nat \<Rightarrow> bool"
  Case_Ignorable :: "nat \<Rightarrow> bool"

text \<open>
  The one conditional mapping that does not depend on the locale is Final_Sigma of
  SpecialCasing.txt: a capital sigma U+03A3 becomes the final sigma U+03C2 when, skipping
  case-ignorable code points, a cased letter stands before it and none stands after it.
  Engines skip every case-ignorable code point, also one that is cased.
  \<open>cased_letter_next\<close> looks in one direction; \<open>before\<close> holds the code points already
  passed, the nearest first.
\<close>

fun cased_letter_next :: "UCD \<Rightarrow> nat list \<Rightarrow> bool" where
  "cased_letter_next ucd [] = False"
| "cased_letter_next ucd (cp # cps) =
     (if Case_Ignorable ucd cp then cased_letter_next ucd cps else Cased ucd cp)"

fun toLowercase :: "UCD \<Rightarrow> nat list \<Rightarrow> nat list \<Rightarrow> nat list" where
  "toLowercase ucd before [] = []"
| "toLowercase ucd before (cp # after) =
     (if cp = 0x03A3 \<and> cased_letter_next ucd before \<and> \<not> cased_letter_next ucd after
      then [0x03C2] else Lowercase_Mapping ucd cp)
       @ toLowercase ucd (cp # before) after"

definition toLowerCase :: "UCD \<Rightarrow> jsstring \<Rightarrow> jsstring" where
  "toLowerCase ucd S = CodePointsToString (toLowercase ucd [] (StringToCodePoints S))"

text \<open>
  For the examples: a table that has the rows of the Unicode Character Database for Basic
  Latin (U+0000 to U+007F) and for the sigmas U+03A3, U+03C2 and U+03C3, and gives every
  other code point no lowercase mapping and neither property. The examples read the rows
  of Basic Latin and of the sigmas only.
\<close>

definition example_tables :: UCD where
  "example_tables =
     \<lparr> Lowercase_Mapping =
         (\<lambda>cp. if 0x41 \<le> cp \<and> cp \<le> 0x5A then [cp + 0x20] else if cp = 0x03A3 then [0x03C3] else [cp]),
       Cased =
         (\<lambda>cp. (0x41 \<le> cp \<and> cp \<le> 0x5A) \<or> (0x61 \<le> cp \<and> cp \<le> 0x7A) \<or>
               cp = 0x03A3 \<or> cp = 0x03C2 \<or> cp = 0x03C3),
       Case_Ignorable =
         (\<lambda>cp. cp = 0x27 \<or> cp = 0x2E \<or> cp = 0x3A \<or> cp = 0x5E \<or> cp = 0x60) \<rparr>"

section \<open>encodeURIComponent\<close>

text \<open>
  ECMA-262, 19.2.6.5 \<open>Encode\<close> with no extra unescaped characters: a code unit of the
  unescaped set (ASCII letters, digits, \<^verbatim>\<open>_\<close> and \<^verbatim>\<open>-.!~*'()\<close>) is kept; otherwise the code
  point at that position is read, an unpaired surrogate throws a \<^verbatim>\<open>URIError\<close>, and each
  octet of the code point's UTF-8 form is written as \<^verbatim>\<open>%\<close> and two uppercase
  hexadecimal digits.
\<close>

definition ascii_upper :: "16 word \<Rightarrow> bool" where
  "ascii_upper c = (0x41 \<le> c \<and> c \<le> 0x5A)"

definition ascii_lower :: "16 word \<Rightarrow> bool" where
  "ascii_lower c = (0x61 \<le> c \<and> c \<le> 0x7A)"

definition unescaped :: "16 word \<Rightarrow> bool" where
  "unescaped c =
     (ascii_upper c \<or> ascii_lower c \<or> (0x30 \<le> c \<and> c \<le> 0x39) \<or> c = 0x5F \<or>
      c = 0x2D \<or> c = 0x2E \<or> c = 0x21 \<or> c = 0x7E \<or> c = 0x2A \<or> c = 0x27 \<or> c = 0x28 \<or> c = 0x29)"

definition utf8 :: "nat \<Rightarrow> nat list" where
  "utf8 cp =
     (if cp < 0x80 then [cp]
      else if cp < 0x800 then [0xC0 + cp div 0x40, 0x80 + cp mod 0x40]
      else if cp < 0x10000 then [0xE0 + cp div 0x1000, 0x80 + cp div 0x40 mod 0x40, 0x80 + cp mod 0x40]
      else [0xF0 + cp div 0x40000, 0x80 + cp div 0x1000 mod 0x40, 0x80 + cp div 0x40 mod 0x40,
            0x80 + cp mod 0x40])"

definition hex_digit :: "nat \<Rightarrow> 16 word" where
  "hex_digit n = (if n < 10 then of_nat (48 + n) else of_nat (55 + n))"

definition percent :: "nat \<Rightarrow> jsstring" where
  "percent octet = [0x25, hex_digit (octet div 16), hex_digit (octet mod 16)]"

definition escape :: "nat \<Rightarrow> jsstring" where
  "escape cp = concat (map percent (utf8 cp))"

fun encodeURIComponent :: "jsstring \<Rightarrow> thrown + jsstring" where
  "encodeURIComponent [] = Inr []"
| "encodeURIComponent (c # rest) =
     (if unescaped c then
        (case encodeURIComponent rest of Inl e \<Rightarrow> Inl e | Inr r \<Rightarrow> Inr (c # r))
      else if trailing_surrogate c then Inl URIError
      else if leading_surrogate c then
        (case rest of
           [] \<Rightarrow> Inl URIError
         | d # rest' \<Rightarrow>
             if trailing_surrogate d then
               (case encodeURIComponent rest' of
                  Inl e \<Rightarrow> Inl e
                | Inr r \<Rightarrow> Inr (escape (surrogate_pair c d) @ r))
             else Inl URIError)
      else
        (case encodeURIComponent rest of Inl e \<Rightarrow> Inl e | Inr r \<Rightarrow> Inr (escape (unat c) @ r)))"

section \<open>Percent-encoding\<close>

text \<open>
  What the specification calls the percent-encoding of a URL, written without
  \<^verbatim>\<open>encodeURIComponent\<close>: a string is a sequence of Unicode scalar values; an unreserved
  character (RFC 2396, 2.3: the letters and digits of ASCII and the marks
  \<^verbatim>\<open>-_.!~*'()\<close>) stands for itself; every other scalar value is written as the octets of
  its UTF-8 form, each octet as \<^verbatim>\<open>%\<close> and two upper-case hexadecimal digits (RFC 3986,
  2.1 and 2.5). \<open>utf8_value\<close> reads the octets of one scalar value as RFC 3629 lays them
  out and accepts the shortest form only; the encoding is said by reading it back, not by
  producing it.
\<close>

definition scalar_value :: "nat \<Rightarrow> bool" where
  "scalar_value cp = (cp < 0xD800 \<or> (0xE000 \<le> cp \<and> cp < 0x110000))"

definition unreserved :: jsstring where
  "unreserved = lit ''ABCDEFGHIJKLMNOPQRSTUVWXYZabcdefghijklmnopqrstuvwxyz0123456789-_.!~*()'' @ [0x27]"

definition hex_upper :: jsstring where
  "hex_upper = lit ''0123456789ABCDEF''"

definition continuation :: "nat \<Rightarrow> bool" where
  "continuation b = (0x80 \<le> b \<and> b \<le> 0xBF)"

fun utf8_value :: "nat list \<Rightarrow> nat option" where
  "utf8_value [a] = (if a < 0x80 then Some a else None)"
| "utf8_value [a, b] =
     (let v = (a - 0xC0) * 0x40 + (b - 0x80)
      in if 0xC0 \<le> a \<and> a \<le> 0xDF \<and> continuation b \<and> 0x80 \<le> v then Some v else None)"
| "utf8_value [a, b, c] =
     (let v = (a - 0xE0) * 0x1000 + (b - 0x80) * 0x40 + (c - 0x80)
      in if 0xE0 \<le> a \<and> a \<le> 0xEF \<and> continuation b \<and> continuation c \<and> 0x800 \<le> v
            \<and> scalar_value v
         then Some v else None)"
| "utf8_value [a, b, c, d] =
     (let v = (a - 0xF0) * 0x40000 + (b - 0x80) * 0x1000 + (c - 0x80) * 0x40 + (d - 0x80)
      in if 0xF0 \<le> a \<and> a \<le> 0xF7 \<and> continuation b \<and> continuation c \<and> continuation d
            \<and> 0x10000 \<le> v \<and> scalar_value v
         then Some v else None)"
| "utf8_value octets = None"

definition percent_escape :: "nat list \<Rightarrow> jsstring" where
  "percent_escape octets =
     concat (map (\<lambda>octet. [0x25, hex_upper ! (octet div 16), hex_upper ! (octet mod 16)]) octets)"

definition percent_encoding_of :: "nat \<Rightarrow> jsstring \<Rightarrow> bool" where
  "percent_encoding_of cp part =
     (if cp < 0x80 \<and> of_nat cp \<in> set unreserved then part = [of_nat cp]
      else (\<exists>octets. utf8_value octets = Some cp \<and> part = percent_escape octets))"

section \<open>The feed directory\<close>

text \<open>The \<^verbatim>\<open>Feed\<close> interface of App.tsx; \<^verbatim>\<open>favicon_url\<close> is optional.\<close>

record Feed =
  id_feed :: jsstring
  feed_title :: jsstring
  feed_url :: jsstring
  website_url :: jsstring
  favicon_url :: "jsstring option"

text \<open>
  A row of \<^verbatim>\<open>results.data\<close>, a \<^verbatim>\<open>Record<string, string>\<close>: a column that the row lacks
  reads as \<^verbatim>\<open>undefined\<close>.
\<close>

type_synonym row = "jsstring \<rightharpoonup> jsstring"

text \<open>
  The \<^verbatim>\<open>URL\<close> constructor belongs to the browser: it is a parameter \<open>newURL\<close> of
  the model, which returns the parsed URL or the value thrown. Only \<^verbatim>\<open>hostname\<close> is read.
  \<^verbatim>\<open>import.meta.env.BASE_URL\<close> is a parameter as well.
\<close>

record URL =
  hostname :: jsstring

text \<open>
  \<^verbatim>\<open>getFaviconUrl\<close> (App.tsx, lines 27 to 40). The \<^verbatim>\<open>try\<close> block returns a value
  (\<open>Inr (Some r)\<close>), falls through (\<open>Inr None\<close>) or throws; the \<^verbatim>\<open>catch\<close> block logs
  and falls through to the default favicon.
\<close>

definition getFaviconUrl :: "(jsstring \<Rightarrow> thrown + URL) \<Rightarrow> jsstring \<Rightarrow> jsstring \<Rightarrow> thrown + jsstring" where
  "getFaviconUrl newURL BASE_URL websiteUrl =
     (case try_catch
             (if truthy websiteUrl then
                (case newURL (if startsWith websiteUrl (lit ''http'') then websiteUrl
                              else lit ''https://'' @ websiteUrl) of
                   Inl e \<Rightarrow> Inl e
                 | Inr url \<Rightarrow> Inr (Some (lit ''https://www.google.com/s2/favicons?domain='' @ hostname url)))
              else Inr None)
             (\<lambda>e. Inr None) of
        Inl e \<Rightarrow> Inl e
      | Inr (Some r) \<Rightarrow> Inr r
      | Inr None \<Rightarrow> Inr (BASE_URL @ lit ''default-favicon.png''))"

text \<open>\<^verbatim>\<open>array.map((x, index) => ...)\<close> with a callback that may throw.\<close>

fun Array_map :: "('a \<Rightarrow> nat \<Rightarrow> thrown + 'b) \<Rightarrow> nat \<Rightarrow> 'a list \<Rightarrow> thrown + 'b list" where
  "Array_map f index [] = Inr []"
| "Array_map f index (x # xs) =
     (case f x index of
        Inl e \<Rightarrow> Inl e
      | Inr y \<Rightarrow> (case Array_map f (Suc index) xs of Inl e \<Rightarrow> Inl e | Inr ys \<Rightarrow> Inr (y # ys)))"

text \<open>
  The \<^verbatim>\<open>complete\<close> handler's \<^verbatim>\<open>sanitizedFeeds\<close> (App.tsx, lines 56 to 65): each row
  is mapped to a feed by the callback \<open>sanitize\<close>, then the feeds without a feed URL
  are filtered out.
\<close>

definition sanitize :: "(jsstring \<Rightarrow> thrown + URL) \<Rightarrow> jsstring \<Rightarrow> row \<Rightarrow> nat \<Rightarrow> thrown + Feed" where
  "sanitize newURL BASE_URL feed index =
     (let websiteUrl = or_else (feed (lit ''website_url'')) [] in
      (case getFaviconUrl newURL BASE_URL websiteUrl of
         Inl e \<Rightarrow> Inl e
       | Inr favicon \<Rightarrow>
           Inr \<lparr> id_feed = or_else (feed (lit ''feed_url'')) (lit ''feed-'' @ digits10 index),
                 feed_title = or_else (feed (lit ''feed_title'')) (lit ''Untitled Feed''),
                 feed_url = or_else (feed (lit ''feed_url'')) [],
                 website_url = websiteUrl,
                 favicon_url = Some favicon \<rparr>))"

definition sanitizedFeeds :: "(jsstring \<Rightarrow> thrown + URL) \<Rightarrow> jsstring \<Rightarrow> row list \<Rightarrow> thrown + Feed list" where
  "sanitizedFeeds newURL BASE_URL results_data =
     (case Array_map (sanitize newURL BASE_URL) 0 results_data of
        Inl e \<Rightarrow> Inl e
      | Inr mapped \<Rightarrow> Inr (filter (\<lambda>feed. truthy (feed_url feed)) mapped))"

text \<open>
  The same value in the second source file (lines 33 to 38), which sets no favicon; its
  callback \<open>sanitize_part_000\<close> reads properties only and cannot throw.
\<close>

definition sanitize_part_000 :: "row \<Rightarrow> nat \<Rightarrow> Feed" where
  "sanitize_part_000 feed index =
     \<lparr> id_feed = or_else (feed (lit ''feed_url'')) (lit ''feed-'' @ digits10 index),
       feed_title = or_else (feed (lit ''feed_title'')) (lit ''Untitled Feed''),
       feed_url = or_else (feed (lit ''feed_url'')) [],
       website_url = or_else (feed (lit ''website_url'')) [],
       favicon_url = None \<rparr>"

definition sanitizedFeeds_part_000 :: "row list \<Rightarrow> Feed list" where
  "sanitizedFeeds_part_000 results_data =
     filter (\<lambda>feed. truthy (feed_url feed))
       (map (\<lambda>(index, feed). sanitize_part_000 feed index) (enumerate 0 results_data))"

text \<open>
  \<^verbatim>\<open>filteredFeeds\<close> (App.tsx, lines 86 to 89). A \<open>Feed\<close>'s title is a string by its type,
  so \<^verbatim>\<open>typeof feed.feed_title === 'string'\<close> holds. The engine's Unicode tables that
  \<^verbatim>\<open>toLowerCase\<close> reads are the parameter \<open>ucd\<close>.
\<close>

definition filteredFeeds :: "UCD \<Rightarrow> Feed list \<Rightarrow> jsstring \<Rightarrow> Feed list" where
  "filteredFeeds ucd feeds searchTerm =
     filter (\<lambda>feed. truthy (feed_title feed) \<and>
                     includes_js (toLowerCase ucd (feed_title feed)) (toLowerCase ucd searchTerm)) feeds"

text \<open>\<^verbatim>\<open>getInoreaderUrl\<close> (App.tsx, lines 91 to 93); \<^verbatim>\<open>String(feedUrl)\<close> is \<^verbatim>\<open>feedUrl\<close>.\<close>

definition getInoreaderUrl :: "jsstring \<Rightarrow> thrown + jsstring" where
  "getInoreaderUrl feedUrl =
     (case encodeURIComponent feedUrl of
        Inl e \<Rightarrow> Inl e
      | Inr encoded \<Rightarrow> Inr (lit ''https://www.inoreader.com/search/feeds/'' @ encoded))"

section \<open>Loading the feeds\<close>

text \<open>The component's state: its four \<^verbatim>\<open>useState\<close> cells (App.tsx, lines 21 to 24).\<close>

record FeedDirectory =
  feeds :: "Feed list"
  loading :: bool
  error :: "jsstring option"
  searchTerm :: jsstring

definition initial :: FeedDirectory where
  "initial = \<lparr> feeds = [], loading = True, error = None, searchTerm = [] \<rparr>"

text \<open>
  The network is the environment: \<^verbatim>\<open>fetch\<close> resolves with a response or rejects, and
  \<^verbatim>\<open>response.text()\<close> resolves with the body or rejects. \<open>responses\<close> gives the outcome
  of the first, second, ... request, and \<open>requests\<close> records the URLs requested so far.
\<close>

datatype body_outcome = Body_text jsstring | Body_rejected thrown

record Response =
  ok :: bool
  status :: nat
  body :: body_outcome

datatype fetch_outcome = Resolved Response | Rejected thrown

record network =
  responses :: "nat \<Rightarrow> fetch_outcome"
  requests :: "jsstring list"

definition fetch :: "jsstring \<Rightarrow> network \<Rightarrow> fetch_outcome \<times> network" where
  "fetch url net = (responses net (length (requests net)), net\<lparr>requests := requests net @ [url]\<rparr>)"

text \<open>
  \<^verbatim>\<open>Papa.parse\<close> is the papaparse library, a parameter of the model. It calls one of the two
  callbacks that \<^verbatim>\<open>loadFeeds\<close> registers: \<^verbatim>\<open>complete\<close> with the results, which App.tsx
  declares as \<^verbatim>\<open>PapaParseResult\<close> (\<^verbatim>\<open>data\<close>, \<^verbatim>\<open>errors: any[]\<close>, \<^verbatim>\<open>meta: any\<close>), or
  \<^verbatim>\<open>error\<close> with an \<^verbatim>\<open>Error\<close>, of which the handler reads the message.
\<close>

record 'any PapaParseResult =
  data :: "row list"
  errors :: "'any list"
  meta :: 'any

datatype 'any Papa_callback = Complete "'any PapaParseResult" | Parse_error jsstring

text \<open>
  \<^verbatim>\<open>loadFeeds\<close> (App.tsx, lines 43 to 81) from a state and a network to the state and the
  network after it. The parser runs inside the \<^verbatim>\<open>try\<close> block. \<^verbatim>\<open>console.error\<close> only
  logs and is left out.
\<close>

definition loadFeeds ::
  "(jsstring \<Rightarrow> thrown + URL) \<Rightarrow> jsstring \<Rightarrow> (jsstring \<Rightarrow> 'any Papa_callback) \<Rightarrow>
     FeedDirectory \<times> network \<Rightarrow> FeedDirectory \<times> network" where
  "loadFeeds newURL BASE_URL Papa_parse = (\<lambda>(st, net).
     let (outcome, net') = fetch (BASE_URL @ lit ''feeds_deduped.csv'') net in
     (case try_catch
        (case outcome of
           Rejected err \<Rightarrow> Inl err
         | Resolved response \<Rightarrow>
             if \<not> ok response then
               Inl (Error (lit ''HTTP error! status: '' @ digits10 (status response)))
             else
               (case body response of
                  Body_rejected err \<Rightarrow> Inl err
                | Body_text fileData \<Rightarrow>
                    (case Papa_parse fileData of
                       Complete results \<Rightarrow>
                         (case sanitizedFeeds newURL BASE_URL (data results) of
                            Inl err \<Rightarrow> Inl err
                          | Inr sanitized \<Rightarrow> Inr (st\<lparr>feeds := sanitized, loading := False\<rparr>))
                     | Parse_error error_message \<Rightarrow>
                         Inr (st\<lparr>error := Some (lit ''Error parsing CSV: '' @ error_message),
                                 loading := False\<rparr>))))
        (\<lambda>err. Inr (st\<lparr>error := Some (lit ''Error loading or processing feeds: ''
                                    @ (if instanceof_Error err then message err else lit ''Unknown error'')
                                    @ lit ''. Ensure '' @ [0x27] @ lit ''feeds_deduped.csv'' @ [0x27]
                                    @ lit '' is accessible.''),
                         loading := False\<rparr>)) of
        Inr st' \<Rightarrow> (st', net')
      | Inl err \<Rightarrow> (st, net')))"

section \<open>Properties of the helpers\<close>

lemma startsWith_prefix: "startsWith t s = prefix s t"
  by (induction t s rule: startsWith.induct) auto

lemma getFaviconUrl_Inr:
  "getFaviconUrl newURL BASE_URL w = Inr
     (if w = [] then BASE_URL @ lit ''default-favicon.png''
      else case newURL (if prefix (lit ''http'') w then w else lit ''https://'' @ w) of
             Inr url \<Rightarrow> lit ''https://www.google.com/s2/favicons?domain='' @ hostname url
           | Inl e \<Rightarrow> BASE_URL @ lit ''default-favicon.png'')"
  by (simp add: getFaviconUrl_def try_catch_def truthy_def startsWith_prefix split: sum.splits)

lemma getFaviconUrl_total: "\<exists>r. getFaviconUrl newURL BASE_URL w = Inr r"
  by (simp add: getFaviconUrl_Inr)

lemma sanitize_Inr: "\<exists>f. sanitize newURL BASE_URL feed index = Inr f"
proof -
  obtain r where "getFaviconUrl newURL BASE_URL (or_else (feed (lit ''website_url'')) []) = Inr r"
    using getFaviconUrl_total by blast
  then show ?thesis by (simp add: sanitize_def Let_def)
qed

lemma sanitize_fields:
  assumes "sanitize newURL BASE_URL feed index = Inr f"
  shows "feed_url f = or_else (feed (lit ''feed_url'')) []"
    and "id_feed f = or_else (feed (lit ''feed_url'')) (lit ''feed-'' @ digits10 index)"
    and "feed_title f = or_else (feed (lit ''feed_title'')) (lit ''Untitled Feed'')"
    and "website_url f = or_else (feed (lit ''website_url'')) []"
proof -
  obtain r where "getFaviconUrl newURL BASE_URL (or_else (feed (lit ''website_url'')) []) = Inr r"
    using getFaviconUrl_total by blast
  with assms have f: "f = \<lparr> id_feed = or_else (feed (lit ''feed_url'')) (lit ''feed-'' @ digits10 index),
                 feed_title = or_else (feed (lit ''feed_title'')) (lit ''Untitled Feed''),
                 feed_url = or_else (feed (lit ''feed_url'')) [],
                 website_url = or_else (feed (lit ''website_url'')) [],
                 favicon_url = Some r \<rparr>"
    by (simp add: sanitize_def Let_def)
  show "feed_url f = or_else (feed (lit ''feed_url'')) []" by (simp add: f)
  show "id_feed f = or_else (feed (lit ''feed_url'')) (lit ''feed-'' @ digits10 index)" by (simp add: f)
  show "feed_title f = or_else (feed (lit ''feed_title'')) (lit ''Untitled Feed'')" by (simp add: f)
  show "website_url f = or_else (feed (lit ''website_url'')) []" by (simp add: f)
qed

lemma Array_map_total:
  assumes "\<And>x i. \<exists>y. f x i = Inr y"
  shows "\<exists>ys. Array_map f index xs = Inr ys"
proof (induction xs arbitrary: index)
  case Nil
  show ?case by simp
next
  case (Cons x xs)
  obtain y where "f x index = Inr y" using assms by blast
  moreover obtain ys where "Array_map f (Suc index) xs = Inr ys" using Cons by blast
  ultimately show ?case by simp
qed

lemma Array_map_all2:
  "Array_map f index xs = Inr ys \<Longrightarrow> list_all2 (\<lambda>(i, x) y. f x i = Inr y) (enumerate index xs) ys"
  by (induction xs arbitrary: index ys) (auto split: sum.splits)

lemma sanitizedFeeds_Inr: "\<exists>loaded. sanitizedFeeds newURL BASE_URL results_data = Inr loaded"
proof -
  obtain mapped where "Array_map (sanitize newURL BASE_URL) 0 results_data = Inr mapped"
    using Array_map_total [of "sanitize newURL BASE_URL"] sanitize_Inr by blast
  then show ?thesis by (simp add: sanitizedFeeds_def)
qed

lemma sanitizedFeeds_member:
  assumes "sanitizedFeeds newURL BASE_URL results_data = Inr loaded" and "f \<in> set loaded"
  shows "\<exists>i < length results_data. sanitize newURL BASE_URL (results_data ! i) i = Inr f \<and> truthy (feed_url f)"
proof -
  from assms(1) obtain mapped where m: "Array_map (sanitize newURL BASE_URL) 0 results_data = Inr mapped"
    and fs: "loaded = filter (\<lambda>feed. truthy (feed_url feed)) mapped"
    by (auto simp: sanitizedFeeds_def split: sum.splits)
  from assms(2) fs have "f \<in> set mapped" and t: "truthy (feed_url f)" by auto
  then obtain k where k: "k < length mapped" "mapped ! k = f" by (auto simp: in_set_conv_nth)
  have a2: "list_all2 (\<lambda>(i, x) y. sanitize newURL BASE_URL x i = Inr y) (enumerate 0 results_data) mapped"
    using Array_map_all2 [OF m] .
  then have len: "length mapped = length results_data" by (auto dest: list_all2_lengthD)
  from a2 k len have "(\<lambda>(i, x) y. sanitize newURL BASE_URL x i = Inr y) (enumerate 0 results_data ! k) (mapped ! k)"
    by (auto simp: list_all2_conv_all_nth)
  with k len have "sanitize newURL BASE_URL (results_data ! k) k = Inr f"
    by (simp add: nth_enumerate_eq)
  with k len t show ?thesis by auto
qed

section \<open>The sanitized list\<close>

lemma sanitizedFeeds_mapped:
  assumes "sanitizedFeeds newURL BASE_URL results_data = Inr loaded"
  shows "\<exists>mapped. length mapped = length results_data
           \<and> (\<forall>i < length results_data. sanitize newURL BASE_URL (results_data ! i) i = Inr (mapped ! i))
           \<and> loaded = filter (\<lambda>feed. truthy (feed_url feed)) mapped"
proof -
  from assms obtain mapped where m: "Array_map (sanitize newURL BASE_URL) 0 results_data = Inr mapped"
    and fs: "loaded = filter (\<lambda>feed. truthy (feed_url feed)) mapped"
    by (auto simp: sanitizedFeeds_def split: sum.splits)
  have a2: "list_all2 (\<lambda>(i, x) y. sanitize newURL BASE_URL x i = Inr y) (enumerate 0 results_data) mapped"
    using Array_map_all2 [OF m] .
  then have len: "length mapped = length results_data" by (auto dest: list_all2_lengthD)
  have "\<forall>i < length results_data. sanitize newURL BASE_URL (results_data ! i) i = Inr (mapped ! i)"
  proof (intro allI impI)
    fix i assume i: "i < length results_data"
    with a2 len have "(\<lambda>(i, x) y. sanitize newURL BASE_URL x i = Inr y) (enumerate 0 results_data ! i) (mapped ! i)"
      by (auto simp: list_all2_conv_all_nth)
    with i show "sanitize newURL BASE_URL (results_data ! i) i = Inr (mapped ! i)"
      by (simp add: nth_enumerate_eq)
  qed
  with len fs show ?thesis by blast
qed

lemma or_else_empty: "or_else a [] = (case a of None \<Rightarrow> [] | Some u \<Rightarrow> u)"
  by (simp add: or_else_def truthy_def split: option.splits)

lemma sanitizedFeeds_urls:
  assumes "sanitizedFeeds newURL BASE_URL results_data = Inr loaded"
  shows "map feed_url loaded =
         filter (\<lambda>u. u \<noteq> []) (map (\<lambda>r. case r (lit ''feed_url'') of None \<Rightarrow> [] | Some u \<Rightarrow> u) results_data)"
proof -
  obtain mapped where len: "length mapped = length results_data"
    and nth: "\<forall>i < length results_data. sanitize newURL BASE_URL (results_data ! i) i = Inr (mapped ! i)"
    and fs: "loaded = filter (\<lambda>feed. truthy (feed_url feed)) mapped"
    using sanitizedFeeds_mapped [OF assms] by blast
  have "map feed_url mapped = map (\<lambda>r. case r (lit ''feed_url'') of None \<Rightarrow> [] | Some u \<Rightarrow> u) results_data"
  proof (rule nth_equalityI)
    show "length (map feed_url mapped) = length (map (\<lambda>r. case r (lit ''feed_url'') of None \<Rightarrow> [] | Some u \<Rightarrow> u) results_data)"
      by (simp add: len)
  next
    fix i assume "i < length (map feed_url mapped)"
    then have i: "i < length results_data" by (simp add: len)
    with nth have "sanitize newURL BASE_URL (results_data ! i) i = Inr (mapped ! i)" by blast
    then have "feed_url (mapped ! i) = or_else ((results_data ! i) (lit ''feed_url'')) []"
      by (rule sanitize_fields)
    with i len show "map feed_url mapped ! i = map (\<lambda>r. case r (lit ''feed_url'') of None \<Rightarrow> [] | Some u \<Rightarrow> u) results_data ! i"
      by (simp add: or_else_empty)
  qed
  then have "filter (\<lambda>u. u \<noteq> []) (map feed_url mapped) =
      filter (\<lambda>u. u \<noteq> []) (map (\<lambda>r. case r (lit ''feed_url'') of None \<Rightarrow> [] | Some u \<Rightarrow> u) results_data)"
    by simp
  moreover have "map feed_url loaded = filter (\<lambda>u. u \<noteq> []) (map feed_url mapped)"
    by (simp add: fs filter_map comp_def truthy_def)
  ultimately show ?thesis by simp
qed

lemma sanitizedFeeds_truthy_url:
  assumes "sanitizedFeeds newURL BASE_URL results_data = Inr loaded" and "feed \<in> set loaded"
  shows "feed_url feed \<noteq> []"
  using sanitizedFeeds_member [OF assms] by (auto simp: truthy_def)

lemma or_else_same: "or_else a [] \<noteq> [] \<Longrightarrow> or_else a b = or_else a []"
  by (auto simp: or_else_def truthy_def split: option.splits)

lemma sanitizedFeeds_id:
  assumes "sanitizedFeeds newURL BASE_URL results_data = Inr loaded" and "feed \<in> set loaded"
  shows "id_feed feed = feed_url feed"
proof -
  obtain i where s: "sanitize newURL BASE_URL (results_data ! i) i = Inr feed" and t: "truthy (feed_url feed)"
    using sanitizedFeeds_member [OF assms] by blast
  have u: "feed_url feed = or_else ((results_data ! i) (lit ''feed_url'')) []"
    using s by (rule sanitize_fields)
  with t have "or_else ((results_data ! i) (lit ''feed_url'')) [] \<noteq> []"
    by (simp add: truthy_def)
  then have "or_else ((results_data ! i) (lit ''feed_url'')) (lit ''feed-'' @ digits10 i) =
             or_else ((results_data ! i) (lit ''feed_url'')) []"
    by (rule or_else_same)
  moreover have "id_feed feed = or_else ((results_data ! i) (lit ''feed_url'')) (lit ''feed-'' @ digits10 i)"
    using s by (rule sanitize_fields)
  ultimately show ?thesis using u by simp
qed

lemma sanitizedFeeds_title:
  assumes "sanitizedFeeds newURL BASE_URL results_data = Inr loaded" and "feed \<in> set loaded"
  shows "feed_title feed \<noteq> []"
proof -
  obtain i where s: "sanitize newURL BASE_URL (results_data ! i) i = Inr feed"
    using sanitizedFeeds_member [OF assms] by blast
  have "lit ''Untitled Feed'' \<noteq> []" by (simp add: lit_def)
  with sanitize_fields(3) [OF s] show ?thesis
    by (auto simp: or_else_def truthy_def split: option.splits if_splits)
qed

lemma set_enumerate0: "set (enumerate 0 xs) = {(i, xs ! i) | i. i < length xs}"
  by (auto simp: in_set_enumerate_eq)

lemma part_000_member:
  "f \<in> set (sanitizedFeeds_part_000 results_data) \<longleftrightarrow>
     (\<exists>i < length results_data.
        f = sanitize_part_000 (results_data ! i) i \<and> feed_url (sanitize_part_000 (results_data ! i) i) \<noteq> [])"
proof -
  have "set (map (\<lambda>(index, feed). sanitize_part_000 feed index) (enumerate 0 results_data)) =
        {sanitize_part_000 (results_data ! i) i | i. i < length results_data}"
    unfolding set_map set_enumerate0 by (auto simp: image_iff)
  then show ?thesis
    unfolding sanitizedFeeds_part_000_def set_filter truthy_def by auto
qed

lemma loadFeeds_feeds:
  "feeds (fst (loadFeeds newURL BASE_URL Papa_parse (st, net))) = feeds st
   \<or> (\<exists>results_data.
         sanitizedFeeds newURL BASE_URL results_data =
           Inr (feeds (fst (loadFeeds newURL BASE_URL Papa_parse (st, net)))))"
proof (cases "responses net (length (requests net))")
  case (Rejected err)
  then show ?thesis
    by (simp add: loadFeeds_def fetch_def try_catch_def)
next
  case (Resolved response)
  show ?thesis
  proof (cases "ok response")
    case False
    with Resolved show ?thesis
      by (simp add: loadFeeds_def fetch_def try_catch_def)
  next
    case True
    show ?thesis
    proof (cases "body response")
      case (Body_rejected err)
      with Resolved True show ?thesis
        by (simp add: loadFeeds_def fetch_def try_catch_def)
    next
      case (Body_text fileData)
      show ?thesis
      proof (cases "Papa_parse fileData")
        case (Parse_error m)
        with Resolved True Body_text show ?thesis
          by (simp add: loadFeeds_def fetch_def try_catch_def)
      next
        case (Complete results)
        obtain sanitized where s: "sanitizedFeeds newURL BASE_URL (data results) = Inr sanitized"
          using sanitizedFeeds_Inr by blast
        with Resolved True Body_text Complete
        have "feeds (fst (loadFeeds newURL BASE_URL Papa_parse (st, net))) = sanitized"
          by (simp add: loadFeeds_def fetch_def try_catch_def)
        with s show ?thesis by blast
      qed
    qed
  qed
qed

lemma loadFeeds_feed_url:
  assumes "\<forall>feed \<in> set (feeds st). feed_url feed \<noteq> []"
  shows "\<forall>feed \<in> set (feeds (fst (loadFeeds newURL BASE_URL Papa_parse (st, net)))). feed_url feed \<noteq> []"
  using loadFeeds_feeds [of newURL BASE_URL Papa_parse st net] assms sanitizedFeeds_truthy_url
  by metis

lemma loadFeeds_id:
  assumes "\<forall>feed \<in> set (feeds st). id_feed feed = feed_url feed"
  shows "\<forall>feed \<in> set (feeds (fst (loadFeeds newURL BASE_URL Papa_parse (st, net)))). id_feed feed = feed_url feed"
  using loadFeeds_feeds [of newURL BASE_URL Papa_parse st net] assms sanitizedFeeds_id
  by metis

text \<open>
  Claim C1. Whatever rows the CSV parser hands to the \<^verbatim>\<open>complete\<close> handler, the handler
  computes a list of feeds (it does not throw), every feed of that list has a non-empty
  \<^verbatim>\<open>feed_url\<close>, and the feed URLs of the list are, in order, the non-empty
  \<^verbatim>\<open>feed_url\<close> columns of the rows: a row whose column is missing or empty
  contributes nothing. The same holds for the handler of the second source file. So the
  collection that \<^verbatim>\<open>loadFeeds\<close> leaves, starting from the initial state, holds only feeds
  with a non-empty \<^verbatim>\<open>feed_url\<close>, whatever the network and the parser do.
\<close>

theorem sanitized_feed_url_nonempty:
  "(\<exists>loaded. sanitizedFeeds newURL BASE_URL results_data = Inr loaded
        \<and> (\<forall>feed \<in> set loaded. feed_url feed \<noteq> [])
        \<and> map feed_url loaded =
            filter (\<lambda>u. u \<noteq> [])
              (map (\<lambda>r. case r (lit ''feed_url'') of None \<Rightarrow> [] | Some u \<Rightarrow> u) results_data))
   \<and> (\<forall>feed \<in> set (sanitizedFeeds_part_000 results_data). feed_url feed \<noteq> [])
   \<and> map feed_url (sanitizedFeeds_part_000 results_data) =
        filter (\<lambda>u. u \<noteq> [])
          (map (\<lambda>r. case r (lit ''feed_url'') of None \<Rightarrow> [] | Some u \<Rightarrow> u) results_data)
   \<and> (\<forall>feed \<in> set (feeds (fst (loadFeeds newURL BASE_URL Papa_parse (initial, net)))).
         feed_url feed \<noteq> [])"
proof (intro conjI)
  obtain loaded where f: "sanitizedFeeds newURL BASE_URL results_data = Inr loaded"
    using sanitizedFeeds_Inr by blast
  have "\<forall>feed \<in> set loaded. feed_url feed \<noteq> []"
    using sanitizedFeeds_truthy_url [OF f] by blast
  with f sanitizedFeeds_urls [OF f]
  show "\<exists>loaded. sanitizedFeeds newURL BASE_URL results_data = Inr loaded
        \<and> (\<forall>feed \<in> set loaded. feed_url feed \<noteq> [])
        \<and> map feed_url loaded =
            filter (\<lambda>u. u \<noteq> [])
              (map (\<lambda>r. case r (lit ''feed_url'') of None \<Rightarrow> [] | Some u \<Rightarrow> u) results_data)"
    by blast
next
  show "\<forall>feed \<in> set (sanitizedFeeds_part_000 results_data). feed_url feed \<noteq> []"
    by (simp add: sanitizedFeeds_part_000_def truthy_def)
next
  have "map feed_url (sanitizedFeeds_part_000 results_data) =
        filter (\<lambda>u. u \<noteq> []) (map (\<lambda>p. or_else (snd p (lit ''feed_url'')) []) (enumerate 0 results_data))"
    by (simp add: sanitizedFeeds_part_000_def sanitize_part_000_def filter_map comp_def truthy_def
        case_prod_unfold)
  also have "map (\<lambda>p. or_else (snd p (lit ''feed_url'')) []) (enumerate 0 results_data) =
        map (\<lambda>r. or_else (r (lit ''feed_url'')) []) (map snd (enumerate 0 results_data))"
    by (simp only: map_map comp_def)
  finally show "map feed_url (sanitizedFeeds_part_000 results_data) =
        filter (\<lambda>u. u \<noteq> [])
          (map (\<lambda>r. case r (lit ''feed_url'') of None \<Rightarrow> [] | Some u \<Rightarrow> u) results_data)"
    by (simp add: or_else_empty)
next
  show "\<forall>feed \<in> set (feeds (fst (loadFeeds newURL BASE_URL Papa_parse (initial, net)))).
         feed_url feed \<noteq> []"
    by (rule loadFeeds_feed_url) (simp add: initial_def)
qed

lemmas eval_defs = sanitizedFeeds_def sanitize_def getFaviconUrl_def try_catch_def or_else_def truthy_def
  lit_def sanitizedFeeds_part_000_def sanitize_part_000_def enumerate_eq_zip

theorem sanitized_feed_url_nonempty_witness:
  "sanitizedFeeds (\<lambda>u. Inl (TypeError [])) (lit ''/'')
     [[lit ''feed_title'' \<mapsto> lit ''ACME News'', lit ''feed_url'' \<mapsto> lit ''http://a.com/rss''],
      [lit ''feed_title'' \<mapsto> lit ''Other''],
      [lit ''feed_title'' \<mapsto> lit ''Blank'', lit ''feed_url'' \<mapsto> []]]
   = Inr [\<lparr> id_feed = lit ''http://a.com/rss'', feed_title = lit ''ACME News'',
             feed_url = lit ''http://a.com/rss'', website_url = [],
             favicon_url = Some (lit ''/default-favicon.png'') \<rparr>]
   \<and> sanitizedFeeds_part_000
     [[lit ''feed_title'' \<mapsto> lit ''ACME News'', lit ''feed_url'' \<mapsto> lit ''http://a.com/rss''],
      [lit ''feed_title'' \<mapsto> lit ''Other''],
      [lit ''feed_title'' \<mapsto> lit ''Blank'', lit ''feed_url'' \<mapsto> []]]
   = [\<lparr> id_feed = lit ''http://a.com/rss'', feed_title = lit ''ACME News'',
             feed_url = lit ''http://a.com/rss'', website_url = [],
             favicon_url = None \<rparr>]"
  using sanitized_feed_url_nonempty [of "\<lambda>u. Inl (TypeError [])" "lit ''/''"
     "[[lit ''feed_title'' \<mapsto> lit ''ACME News'', lit ''feed_url'' \<mapsto> lit ''http://a.com/rss''],
      [lit ''feed_title'' \<mapsto> lit ''Other''],
      [lit ''feed_title'' \<mapsto> lit ''Blank'', lit ''feed_url'' \<mapsto> []]]"]
  by (simp add: eval_defs)

lemma part_000_id:
  assumes "feed \<in> set (sanitizedFeeds_part_000 results_data)"
  shows "id_feed feed = feed_url feed"
proof -
  from assms obtain i where f: "feed = sanitize_part_000 (results_data ! i) i"
    and u: "feed_url (sanitize_part_000 (results_data ! i) i) \<noteq> []"
    unfolding part_000_member by blast
  from u have "or_else ((results_data ! i) (lit ''feed_url'')) [] \<noteq> []"
    by (simp add: sanitize_part_000_def)
  then have "or_else ((results_data ! i) (lit ''feed_url'')) (lit ''feed-'' @ digits10 i) =
             or_else ((results_data ! i) (lit ''feed_url'')) []"
    by (rule or_else_same)
  then show ?thesis by (simp add: f sanitize_part_000_def)
qed

lemma or_else_falsy: "a = None \<or> a = Some [] \<Longrightarrow> or_else a b = b"
  by (auto simp: or_else_def truthy_def)

text \<open>
  Claim C9. Every feed that the \<^verbatim>\<open>complete\<close> handler publishes has its \<^verbatim>\<open>id\<close> equal to
  its \<^verbatim>\<open>feed_url\<close>, in both source files. The positional fallback \<^verbatim>\<open>feed-${index}\<close> is
  taken only by a row whose \<^verbatim>\<open>feed_url\<close> column is missing or empty; the feed mapped from
  such a row has an empty \<^verbatim>\<open>feed_url\<close>, so the filter removes it. So every feed of the
  collection that \<^verbatim>\<open>loadFeeds\<close> leaves, starting from the initial state, has its
  \<^verbatim>\<open>id\<close> equal to its \<^verbatim>\<open>feed_url\<close>.
\<close>

theorem published_id_is_feed_url:
  "(\<exists>loaded. sanitizedFeeds newURL BASE_URL results_data = Inr loaded
        \<and> (\<forall>feed \<in> set loaded. id_feed feed = feed_url feed))
   \<and> (\<forall>feed \<in> set (sanitizedFeeds_part_000 results_data). id_feed feed = feed_url feed)
   \<and> (\<forall>feed index f.
         (feed (lit ''feed_url'') = None \<or> feed (lit ''feed_url'') = Some []) \<longrightarrow>
         sanitize newURL BASE_URL feed index = Inr f \<longrightarrow>
         id_feed f = lit ''feed-'' @ digits10 index \<and> \<not> truthy (feed_url f))
   \<and> (\<forall>feed index.
         (feed (lit ''feed_url'') = None \<or> feed (lit ''feed_url'') = Some []) \<longrightarrow>
         id_feed (sanitize_part_000 feed index) = lit ''feed-'' @ digits10 index
         \<and> \<not> truthy (feed_url (sanitize_part_000 feed index)))
   \<and> (\<forall>feed \<in> set (feeds (fst (loadFeeds newURL BASE_URL Papa_parse (initial, net)))).
         id_feed feed = feed_url feed)"
proof (intro conjI allI impI)
  obtain loaded where f: "sanitizedFeeds newURL BASE_URL results_data = Inr loaded"
    using sanitizedFeeds_Inr by blast
  have "\<forall>feed \<in> set loaded. id_feed feed = feed_url feed"
    using sanitizedFeeds_id [OF f] by blast
  with f show "\<exists>loaded. sanitizedFeeds newURL BASE_URL results_data = Inr loaded
        \<and> (\<forall>feed \<in> set loaded. id_feed feed = feed_url feed)"
    by blast
next
  show "\<forall>feed \<in> set (sanitizedFeeds_part_000 results_data). id_feed feed = feed_url feed"
    using part_000_id by blast
next
  fix feed :: row and index f
  assume a: "feed (lit ''feed_url'') = None \<or> feed (lit ''feed_url'') = Some []"
    and s: "sanitize newURL BASE_URL feed index = Inr f"
  show "id_feed f = lit ''feed-'' @ digits10 index"
    using sanitize_fields(2) [OF s] or_else_falsy [OF a, of "lit ''feed-'' @ digits10 index"] by simp
  show "\<not> truthy (feed_url f)"
    using sanitize_fields(1) [OF s] or_else_falsy [OF a, of "[]"] by (simp add: truthy_def)
next
  fix feed :: row and index
  assume a: "feed (lit ''feed_url'') = None \<or> feed (lit ''feed_url'') = Some []"
  show "id_feed (sanitize_part_000 feed index) = lit ''feed-'' @ digits10 index"
    using or_else_falsy [OF a, of "lit ''feed-'' @ digits10 index"] by (simp add: sanitize_part_000_def)
  show "\<not> truthy (feed_url (sanitize_part_000 feed index))"
    using or_else_falsy [OF a, of "[]"] by (simp add: sanitize_part_000_def truthy_def)
next
  show "\<forall>feed \<in> set (feeds (fst (loadFeeds newURL BASE_URL Papa_parse (initial, net)))).
         id_feed feed = feed_url feed"
    by (rule loadFeeds_id) (simp add: initial_def)
qed

theorem published_id_is_feed_url_witness:
  "sanitizedFeeds (\<lambda>u. Inl (TypeError [])) (lit ''/'')
     [[lit ''feed_title'' \<mapsto> lit ''No address''],
      [lit ''feed_title'' \<mapsto> lit ''Other'', lit ''feed_url'' \<mapsto> lit ''http://b.com/rss'']]
   = Inr [\<lparr> id_feed = lit ''http://b.com/rss'', feed_title = lit ''Other'',
             feed_url = lit ''http://b.com/rss'', website_url = [],
             favicon_url = Some (lit ''/default-favicon.png'') \<rparr>]
   \<and> sanitize (\<lambda>u. Inl (TypeError [])) (lit ''/'') [lit ''feed_title'' \<mapsto> lit ''No address''] 0
   = Inr \<lparr> id_feed = lit ''feed-0'', feed_title = lit ''No address'',
             feed_url = [], website_url = [],
             favicon_url = Some (lit ''/default-favicon.png'') \<rparr>
   \<and> sanitizedFeeds_part_000
     [[lit ''feed_title'' \<mapsto> lit ''No address''],
      [lit ''feed_title'' \<mapsto> lit ''Other'', lit ''feed_url'' \<mapsto> lit ''http://b.com/rss'']]
   = [\<lparr> id_feed = lit ''http://b.com/rss'', feed_title = lit ''Other'',
             feed_url = lit ''http://b.com/rss'', website_url = [], favicon_url = None \<rparr>]"
proof -
  let ?N = "\<lambda>u :: jsstring. Inl (TypeError []) :: thrown + URL"
  let ?row = "[lit ''feed_title'' \<mapsto> lit ''No address''] :: row"
  let ?rows = "[?row, [lit ''feed_title'' \<mapsto> lit ''Other'', lit ''feed_url'' \<mapsto> lit ''http://b.com/rss'']]"
  have d: "digits10 0 = [0x30]"
    by (subst digits10.simps) simp
  have none: "?row (lit ''feed_url'') = None \<or> ?row (lit ''feed_url'') = Some []"
    by (simp add: lit_def)
  obtain f where f: "sanitize ?N (lit ''/'') ?row 0 = Inr f"
    using sanitize_Inr by blast
  from published_id_is_feed_url [of ?N "lit ''/''" ?rows] none f
  have "id_feed f = lit ''feed-'' @ digits10 0 \<and> \<not> truthy (feed_url f)"
    by blast
  moreover have "sanitize ?N (lit ''/'') ?row 0 = Inr \<lparr> id_feed = lit ''feed-0'', feed_title = lit ''No address'',
             feed_url = [], website_url = [], favicon_url = Some (lit ''/default-favicon.png'') \<rparr>"
    by (simp add: eval_defs d)
  moreover have "sanitizedFeeds ?N (lit ''/'') ?rows
     = Inr [\<lparr> id_feed = lit ''http://b.com/rss'', feed_title = lit ''Other'',
             feed_url = lit ''http://b.com/rss'', website_url = [],
             favicon_url = Some (lit ''/default-favicon.png'') \<rparr>]"
    by (simp add: eval_defs d)
  moreover have "sanitizedFeeds_part_000 ?rows
     = [\<lparr> id_feed = lit ''http://b.com/rss'', feed_title = lit ''Other'',
             feed_url = lit ''http://b.com/rss'', website_url = [], favicon_url = None \<rparr>]"
    by (simp add: eval_defs d)
  ultimately show ?thesis by blast
qed

lemma or_else_truthy: "a = Some u \<Longrightarrow> u \<noteq> [] \<Longrightarrow> or_else a b = u"
  by (simp add: or_else_def truthy_def)

text \<open>
  Claim C5. A row whose \<^verbatim>\<open>feed_title\<close> column is missing or empty and whose \<^verbatim>\<open>feed_url\<close>
  column is a non-empty string is mapped to a feed titled \<^verbatim>\<open>Untitled Feed\<close> with that feed
  URL, and this feed is in the published list, in both source files.
\<close>

theorem untitled_feed_placeholder:
  assumes "i < length results_data"
    and "(results_data ! i) (lit ''feed_title'') = None \<or> (results_data ! i) (lit ''feed_title'') = Some []"
    and "(results_data ! i) (lit ''feed_url'') = Some u"
    and "u \<noteq> []"
  shows "(\<exists>loaded f. sanitizedFeeds newURL BASE_URL results_data = Inr loaded
            \<and> sanitize newURL BASE_URL (results_data ! i) i = Inr f
            \<and> f \<in> set loaded \<and> feed_title f = lit ''Untitled Feed'' \<and> feed_url f = u)
       \<and> sanitize_part_000 (results_data ! i) i \<in> set (sanitizedFeeds_part_000 results_data)
       \<and> feed_title (sanitize_part_000 (results_data ! i) i) = lit ''Untitled Feed''
       \<and> feed_url (sanitize_part_000 (results_data ! i) i) = u"
proof (intro conjI)
  obtain loaded where fs: "sanitizedFeeds newURL BASE_URL results_data = Inr loaded"
    using sanitizedFeeds_Inr by blast
  obtain mapped where len: "length mapped = length results_data"
    and nth: "\<forall>i < length results_data. sanitize newURL BASE_URL (results_data ! i) i = Inr (mapped ! i)"
    and flt: "loaded = filter (\<lambda>feed. truthy (feed_url feed)) mapped"
    using sanitizedFeeds_mapped [OF fs] by blast
  let ?f = "mapped ! i"
  have s: "sanitize newURL BASE_URL (results_data ! i) i = Inr ?f"
    using nth assms(1) by blast
  have url: "feed_url ?f = u"
    using sanitize_fields(1) [OF s] or_else_truthy [OF assms(3,4), of "[]"] by simp
  have title: "feed_title ?f = lit ''Untitled Feed''"
    using sanitize_fields(3) [OF s] or_else_falsy [OF assms(2), of "lit ''Untitled Feed''"] by simp
  have "?f \<in> set mapped"
    using assms(1) len by simp
  with url assms(4) have "?f \<in> set loaded"
    by (simp add: flt truthy_def)
  with fs s url title
  show "\<exists>loaded f. sanitizedFeeds newURL BASE_URL results_data = Inr loaded
            \<and> sanitize newURL BASE_URL (results_data ! i) i = Inr f
            \<and> f \<in> set loaded \<and> feed_title f = lit ''Untitled Feed'' \<and> feed_url f = u"
    by blast
next
  show u: "feed_url (sanitize_part_000 (results_data ! i) i) = u"
    using or_else_truthy [OF assms(3,4), of "[]"] by (simp add: sanitize_part_000_def)
  show "feed_title (sanitize_part_000 (results_data ! i) i) = lit ''Untitled Feed''"
    using or_else_falsy [OF assms(2), of "lit ''Untitled Feed''"] by (simp add: sanitize_part_000_def)
  show "sanitize_part_000 (results_data ! i) i \<in> set (sanitizedFeeds_part_000 results_data)"
    unfolding part_000_member using assms(1,4) u by auto
qed

theorem untitled_feed_placeholder_witness:
  "sanitizedFeeds (\<lambda>u. Inl (TypeError [])) (lit ''/'')
     [[lit ''feed_title'' \<mapsto> lit ''ACME News'', lit ''feed_url'' \<mapsto> lit ''http://a.com/rss''],
      [lit ''feed_title'' \<mapsto> [], lit ''feed_url'' \<mapsto> lit ''http://b.com/rss'']]
   = Inr [\<lparr> id_feed = lit ''http://a.com/rss'', feed_title = lit ''ACME News'',
             feed_url = lit ''http://a.com/rss'', website_url = [],
             favicon_url = Some (lit ''/default-favicon.png'') \<rparr>,
          \<lparr> id_feed = lit ''http://b.com/rss'', feed_title = lit ''Untitled Feed'',
             feed_url = lit ''http://b.com/rss'', website_url = [],
             favicon_url = Some (lit ''/default-favicon.png'') \<rparr>]
   \<and> feed_title (sanitize_part_000 [lit ''feed_title'' \<mapsto> [], lit ''feed_url'' \<mapsto> lit ''http://b.com/rss''] 1)
       = lit ''Untitled Feed''
   \<and> sanitize_part_000 [lit ''feed_title'' \<mapsto> [], lit ''feed_url'' \<mapsto> lit ''http://b.com/rss''] 1
       \<in> set (sanitizedFeeds_part_000
     [[lit ''feed_title'' \<mapsto> lit ''ACME News'', lit ''feed_url'' \<mapsto> lit ''http://a.com/rss''],
      [lit ''feed_title'' \<mapsto> [], lit ''feed_url'' \<mapsto> lit ''http://b.com/rss'']])"
proof -
  let ?N = "\<lambda>u :: jsstring. Inl (TypeError []) :: thrown + URL"
  let ?row = "[lit ''feed_title'' \<mapsto> [], lit ''feed_url'' \<mapsto> lit ''http://b.com/rss''] :: row"
  let ?rows = "[[lit ''feed_title'' \<mapsto> lit ''ACME News'', lit ''feed_url'' \<mapsto> lit ''http://a.com/rss''], ?row]"
  have h1: "1 < length ?rows" by simp
  have h2: "(?rows ! 1) (lit ''feed_title'') = None \<or> (?rows ! 1) (lit ''feed_title'') = Some []"
    by (simp add: lit_def)
  have h3: "(?rows ! 1) (lit ''feed_url'') = Some (lit ''http://b.com/rss'')"
    by (simp add: lit_def)
  have h4: "lit ''http://b.com/rss'' \<noteq> []"
    by (simp add: lit_def)
  have r: "?rows ! 1 = ?row" by simp
  note t = untitled_feed_placeholder [OF h1 h2 h3 h4, of ?N "lit ''/''", unfolded r]
  have "sanitizedFeeds ?N (lit ''/'') ?rows
   = Inr [\<lparr> id_feed = lit ''http://a.com/rss'', feed_title = lit ''ACME News'',
             feed_url = lit ''http://a.com/rss'', website_url = [],
             favicon_url = Some (lit ''/default-favicon.png'') \<rparr>,
          \<lparr> id_feed = lit ''http://b.com/rss'', feed_title = lit ''Untitled Feed'',
             feed_url = lit ''http://b.com/rss'', website_url = [],
             favicon_url = Some (lit ''/default-favicon.png'') \<rparr>]"
    by (simp add: eval_defs)
  with t show ?thesis by blast
qed

section \<open>The favicon helper\<close>

text \<open>
  Claim C8. For every website URL string, whatever the browser's URL parser does,
  \<^verbatim>\<open>getFaviconUrl\<close> returns and never throws. For an empty string, or when the parser
  throws on the string (prefixed with \<^verbatim>\<open>https://\<close> unless it starts with \<^verbatim>\<open>http\<close>), the
  result is the default favicon path under the base URL; otherwise it is the favicon
  service's URL for the parsed hostname.
\<close>

theorem getFaviconUrl_never_throws:
  "getFaviconUrl newURL BASE_URL w = Inr
     (if w = [] then BASE_URL @ lit ''default-favicon.png''
      else case newURL (if prefix (lit ''http'') w then w else lit ''https://'' @ w) of
             Inr url \<Rightarrow> lit ''https://www.google.com/s2/favicons?domain='' @ hostname url
           | Inl e \<Rightarrow> BASE_URL @ lit ''default-favicon.png'')"
  by (rule getFaviconUrl_Inr)

theorem getFaviconUrl_never_throws_witness:
  "getFaviconUrl (\<lambda>u. if u = lit ''https://example.com'' then Inr \<lparr>hostname = lit ''example.com''\<rparr>
                        else Inl (TypeError [])) (lit ''/'') (lit ''example.com'')
     = Inr (lit ''https://www.google.com/s2/favicons?domain=example.com'')
   \<and> getFaviconUrl (\<lambda>u. if u = lit ''https://example.com'' then Inr \<lparr>hostname = lit ''example.com''\<rparr>
                        else Inl (TypeError [])) (lit ''/'') (lit ''http://'')
     = Inr (lit ''/default-favicon.png'')
   \<and> getFaviconUrl (\<lambda>u. if u = lit ''https://example.com'' then Inr \<lparr>hostname = lit ''example.com''\<rparr>
                        else Inl (TypeError [])) (lit ''/'') []
     = Inr (lit ''/default-favicon.png'')"
proof -
  let ?N = "\<lambda>u. if u = lit ''https://example.com'' then Inr \<lparr>hostname = lit ''example.com''\<rparr>
                        else Inl (TypeError [])"
  show ?thesis
    using getFaviconUrl_never_throws [of ?N "lit ''/''" "lit ''example.com''"]
      getFaviconUrl_never_throws [of ?N "lit ''/''" "lit ''http://''"]
      getFaviconUrl_never_throws [of ?N "lit ''/''" "[]"]
    by (simp add: lit_def)
qed

section \<open>The search filter\<close>

lemma includes_js_sublist: "includes_js t s = sublist s t"
  by (induction t) (simp_all add: startsWith_prefix sublist_Cons_right)

lemma toLowerCase_Nil: "toLowerCase ucd [] = []"
  by (simp add: toLowerCase_def CodePointsToString_def)

lemma filteredFeeds_sublist:
  assumes "sanitizedFeeds newURL BASE_URL results_data = Inr loaded"
  shows "filteredFeeds ucd loaded search =
         filter (\<lambda>feed. sublist (toLowerCase ucd search) (toLowerCase ucd (feed_title feed))) loaded"
proof -
  have "\<forall>feed \<in> set loaded. truthy (feed_title feed)"
    using sanitizedFeeds_title [OF assms] by (simp add: truthy_def)
  then show ?thesis
    unfolding filteredFeeds_def includes_js_sublist
    by (intro filter_cong) auto
qed

lemmas lower_defs = toLowerCase_def CodePointsToString_def UTF16EncodeCodePoint_def
  leading_surrogate_def trailing_surrogate_def

lemma lower_A_Sigma:
  assumes "Lowercase_Mapping ucd 0x41 = [0x61]" and "Cased ucd 0x41" and "\<not> Case_Ignorable ucd 0x41"
  shows "toLowerCase ucd [0x41, 0x03A3] = [0x61, 0x03C2]"
  using assms by (simp add: lower_defs)

lemma lower_A_Sigma_A:
  assumes "Lowercase_Mapping ucd 0x41 = [0x61]" and "Lowercase_Mapping ucd 0x03A3 = [0x03C3]"
    and "Cased ucd 0x41" and "\<not> Case_Ignorable ucd 0x41"
  shows "toLowerCase ucd [0x41, 0x03A3, 0x41] = [0x61, 0x03C3, 0x61]"
  using assms by (simp add: lower_defs)

lemma lower_a_sigma_a:
  assumes "Lowercase_Mapping ucd 0x61 = [0x61]" and "Lowercase_Mapping ucd 0x03C3 = [0x03C3]"
  shows "toLowerCase ucd [0x61, 0x03C3, 0x61] = [0x61, 0x03C3, 0x61]"
  using assms by (simp add: lower_defs)

lemma example_tables_rows:
  "Lowercase_Mapping example_tables 0x41 = [0x61]"
  "Lowercase_Mapping example_tables 0x61 = [0x61]"
  "Lowercase_Mapping example_tables 0x03A3 = [0x03C3]"
  "Lowercase_Mapping example_tables 0x03C3 = [0x03C3]"
  "Cased example_tables 0x41"
  "\<not> Case_Ignorable example_tables 0x41"
  by (simp_all add: example_tables_def)

lemma filteredFeeds_acme:
  assumes "\<And>cp. cp < 0x80 \<Longrightarrow>
             Lowercase_Mapping ucd cp = [if 0x41 \<le> cp \<and> cp \<le> 0x5A then cp + 0x20 else cp]"
  shows "\<exists>first second.
         sanitizedFeeds newURL BASE_URL
           [[lit ''feed_title'' \<mapsto> lit ''ACME News'', lit ''feed_url'' \<mapsto> lit ''http://a.com/rss''],
            [lit ''feed_title'' \<mapsto> lit ''Other'', lit ''feed_url'' \<mapsto> lit ''http://b.com/rss'']]
           = Inr [first, second]
         \<and> feed_title first = lit ''ACME News'' \<and> feed_url first = lit ''http://a.com/rss''
         \<and> feed_title second = lit ''Other'' \<and> feed_url second = lit ''http://b.com/rss''
         \<and> filteredFeeds ucd [first, second] (lit ''acme'') = [first]"
proof -
  let ?first = "\<lparr> id_feed = lit ''http://a.com/rss'', feed_title = lit ''ACME News'',
             feed_url = lit ''http://a.com/rss'', website_url = [],
             favicon_url = Some (BASE_URL @ lit ''default-favicon.png'') \<rparr>"
  let ?second = "\<lparr> id_feed = lit ''http://b.com/rss'', feed_title = lit ''Other'',
             feed_url = lit ''http://b.com/rss'', website_url = [],
             favicon_url = Some (BASE_URL @ lit ''default-favicon.png'') \<rparr>"
  have l1: "toLowerCase ucd (lit ''ACME News'') = lit ''acme news''"
    by (simp add: lower_defs lit_def assms)
  have l2: "toLowerCase ucd (lit ''Other'') = lit ''other''"
    by (simp add: lower_defs lit_def assms)
  have l3: "toLowerCase ucd (lit ''acme'') = lit ''acme''"
    by (simp add: lower_defs lit_def assms)
  have "sanitizedFeeds newURL BASE_URL
           [[lit ''feed_title'' \<mapsto> lit ''ACME News'', lit ''feed_url'' \<mapsto> lit ''http://a.com/rss''],
            [lit ''feed_title'' \<mapsto> lit ''Other'', lit ''feed_url'' \<mapsto> lit ''http://b.com/rss'']]
           = Inr [?first, ?second]"
    by (simp add: eval_defs)
  moreover have "filteredFeeds ucd [?first, ?second] (lit ''acme'') = [?first]"
    by (simp add: filteredFeeds_def l1 l2 l3) (simp add: truthy_def lit_def)
  ultimately show ?thesis
    by (intro exI [of _ ?first] exI [of _ ?second]) simp
qed

text \<open>
  Claim C2 asks for exactly the entries whose title contains the search string
  case-insensitively, and the filter is written to be that: it lower-cases both strings
  and looks for the one in the other (\<open>filteredFeeds_sublist\<close>). On the two rows titled
  \<^verbatim>\<open>ACME News\<close> and \<^verbatim>\<open>Other\<close> the search \<^verbatim>\<open>acme\<close> gives the first entry
  (\<open>filteredFeeds_acme\<close>). But \<^verbatim>\<open>toLowerCase\<close> lower-cases a capital sigma by its place in
  the string. The loaded feed titled A, U+03A3, A contains the search string A, U+03A3 as
  it stands, in the same case; the title lower-cases to a, U+03C3, a and the search string
  to a, U+03C2 (final sigma), and the filter returns nothing. This holds with every
  table that has the rows of the Unicode Character Database for U+0041 and U+03A3.
\<close>

theorem filteredFeeds_misses_verbatim_match:
  assumes "Lowercase_Mapping ucd 0x41 = [0x61]" and "Lowercase_Mapping ucd 0x03A3 = [0x03C3]"
    and "Cased ucd 0x41" and "\<not> Case_Ignorable ucd 0x41"
  shows "sanitizedFeeds newURL BASE_URL
           [[lit ''feed_title'' \<mapsto> [0x41, 0x03A3, 0x41], lit ''feed_url'' \<mapsto> lit ''http://a.com/rss'']]
         = Inr [\<lparr> id_feed = lit ''http://a.com/rss'', feed_title = [0x41, 0x03A3, 0x41],
                   feed_url = lit ''http://a.com/rss'', website_url = [],
                   favicon_url = Some (BASE_URL @ lit ''default-favicon.png'') \<rparr>]
       \<and> sublist [0x41, 0x03A3] [0x41, 0x03A3, 0x41 :: 16 word]
       \<and> filteredFeeds ucd
           [\<lparr> id_feed = lit ''http://a.com/rss'', feed_title = [0x41, 0x03A3, 0x41],
               feed_url = lit ''http://a.com/rss'', website_url = [],
               favicon_url = Some (BASE_URL @ lit ''default-favicon.png'') \<rparr>] [0x41, 0x03A3]
         = []"
proof (intro conjI)
  show "sanitizedFeeds newURL BASE_URL
           [[lit ''feed_title'' \<mapsto> [0x41, 0x03A3, 0x41], lit ''feed_url'' \<mapsto> lit ''http://a.com/rss'']]
         = Inr [\<lparr> id_feed = lit ''http://a.com/rss'', feed_title = [0x41, 0x03A3, 0x41],
                   feed_url = lit ''http://a.com/rss'', website_url = [],
                   favicon_url = Some (BASE_URL @ lit ''default-favicon.png'') \<rparr>]"
    by (simp add: eval_defs)
  show "sublist [0x41, 0x03A3] [0x41, 0x03A3, 0x41 :: 16 word]"
    by (simp add: sublist_Cons_right)
  have l1: "toLowerCase ucd [0x41, 0x03A3, 0x41] = [0x61, 0x03C3, 0x61]"
    using assms by (rule lower_A_Sigma_A)
  have l2: "toLowerCase ucd [0x41, 0x03A3] = [0x61, 0x03C2]"
    using assms(1,3,4) by (rule lower_A_Sigma)
  show "filteredFeeds ucd
           [\<lparr> id_feed = lit ''http://a.com/rss'', feed_title = [0x41, 0x03A3, 0x41],
               feed_url = lit ''http://a.com/rss'', website_url = [],
               favicon_url = Some (BASE_URL @ lit ''default-favicon.png'') \<rparr>] [0x41, 0x03A3]
         = []"
    by (simp add: filteredFeeds_def l1 l2)
qed

theorem filteredFeeds_misses_verbatim_match_witness:
  "sanitizedFeeds (\<lambda>u. Inl (TypeError [])) (lit ''/'')
           [[lit ''feed_title'' \<mapsto> [0x41, 0x03A3, 0x41], lit ''feed_url'' \<mapsto> lit ''http://a.com/rss'']]
         = Inr [\<lparr> id_feed = lit ''http://a.com/rss'', feed_title = [0x41, 0x03A3, 0x41],
                   feed_url = lit ''http://a.com/rss'', website_url = [],
                   favicon_url = Some (lit ''/'' @ lit ''default-favicon.png'') \<rparr>]
       \<and> sublist [0x41, 0x03A3] [0x41, 0x03A3, 0x41 :: 16 word]
       \<and> filteredFeeds example_tables
           [\<lparr> id_feed = lit ''http://a.com/rss'', feed_title = [0x41, 0x03A3, 0x41],
               feed_url = lit ''http://a.com/rss'', website_url = [],
               favicon_url = Some (lit ''/'' @ lit ''default-favicon.png'') \<rparr>] [0x41, 0x03A3]
         = []"
  by (rule filteredFeeds_misses_verbatim_match [OF example_tables_rows(1,3,5,6)])

text \<open>
  Claim C3 asks that a search string s' that contains the search string s never returns an
  entry that s does not return. For the loaded feed titled a, U+03C3, a the search string
  s' = A, U+03A3, A returns the feed and its substring s = A, U+03A3 returns nothing: at
  the end of s the capital sigma lower-cases to the final sigma U+03C2, inside s' to
  U+03C3. It is the defect of claim C2, seen from the search string.
\<close>

theorem filteredFeeds_not_monotone:
  assumes "Lowercase_Mapping ucd 0x41 = [0x61]" and "Lowercase_Mapping ucd 0x61 = [0x61]"
    and "Lowercase_Mapping ucd 0x03A3 = [0x03C3]" and "Lowercase_Mapping ucd 0x03C3 = [0x03C3]"
    and "Cased ucd 0x41" and "\<not> Case_Ignorable ucd 0x41"
  shows "sublist [0x41, 0x03A3] [0x41, 0x03A3, 0x41 :: 16 word]
       \<and> sanitizedFeeds newURL BASE_URL
           [[lit ''feed_title'' \<mapsto> [0x61, 0x03C3, 0x61], lit ''feed_url'' \<mapsto> lit ''http://a.com/rss'']]
         = Inr [\<lparr> id_feed = lit ''http://a.com/rss'', feed_title = [0x61, 0x03C3, 0x61],
                   feed_url = lit ''http://a.com/rss'', website_url = [],
                   favicon_url = Some (BASE_URL @ lit ''default-favicon.png'') \<rparr>]
       \<and> filteredFeeds ucd
           [\<lparr> id_feed = lit ''http://a.com/rss'', feed_title = [0x61, 0x03C3, 0x61],
               feed_url = lit ''http://a.com/rss'', website_url = [],
               favicon_url = Some (BASE_URL @ lit ''default-favicon.png'') \<rparr>] [0x41, 0x03A3, 0x41]
         = [\<lparr> id_feed = lit ''http://a.com/rss'', feed_title = [0x61, 0x03C3, 0x61],
               feed_url = lit ''http://a.com/rss'', website_url = [],
               favicon_url = Some (BASE_URL @ lit ''default-favicon.png'') \<rparr>]
       \<and> filteredFeeds ucd
           [\<lparr> id_feed = lit ''http://a.com/rss'', feed_title = [0x61, 0x03C3, 0x61],
               feed_url = lit ''http://a.com/rss'', website_url = [],
               favicon_url = Some (BASE_URL @ lit ''default-favicon.png'') \<rparr>] [0x41, 0x03A3]
         = []"
proof (intro conjI)
  show "sublist [0x41, 0x03A3] [0x41, 0x03A3, 0x41 :: 16 word]"
    by (simp add: sublist_Cons_right)
  show "sanitizedFeeds newURL BASE_URL
           [[lit ''feed_title'' \<mapsto> [0x61, 0x03C3, 0x61], lit ''feed_url'' \<mapsto> lit ''http://a.com/rss'']]
         = Inr [\<lparr> id_feed = lit ''http://a.com/rss'', feed_title = [0x61, 0x03C3, 0x61],
                   feed_url = lit ''http://a.com/rss'', website_url = [],
                   favicon_url = Some (BASE_URL @ lit ''default-favicon.png'') \<rparr>]"
    by (simp add: eval_defs)
  have l1: "toLowerCase ucd [0x41, 0x03A3, 0x41] = [0x61, 0x03C3, 0x61]"
    using assms(1,3,5,6) by (rule lower_A_Sigma_A)
  have l2: "toLowerCase ucd [0x41, 0x03A3] = [0x61, 0x03C2]"
    using assms(1,5,6) by (rule lower_A_Sigma)
  have l3: "toLowerCase ucd [0x61, 0x03C3, 0x61] = [0x61, 0x03C3, 0x61]"
    using assms(2,4) by (rule lower_a_sigma_a)
  show "filteredFeeds ucd
           [\<lparr> id_feed = lit ''http://a.com/rss'', feed_title = [0x61, 0x03C3, 0x61],
               feed_url = lit ''http://a.com/rss'', website_url = [],
               favicon_url = Some (BASE_URL @ lit ''default-favicon.png'') \<rparr>] [0x41, 0x03A3, 0x41]
         = [\<lparr> id_feed = lit ''http://a.com/rss'', feed_title = [0x61, 0x03C3, 0x61],
               feed_url = lit ''http://a.com/rss'', website_url = [],
               favicon_url = Some (BASE_URL @ lit ''default-favicon.png'') \<rparr>]"
    by (simp add: filteredFeeds_def truthy_def l1 l3)
  show "filteredFeeds ucd
           [\<lparr> id_feed = lit ''http://a.com/rss'', feed_title = [0x61, 0x03C3, 0x61],
               feed_url = lit ''http://a.com/rss'', website_url = [],
               favicon_url = Some (BASE_URL @ lit ''default-favicon.png'') \<rparr>] [0x41, 0x03A3]
         = []"
    by (simp add: filteredFeeds_def l2 l3)
qed

theorem filteredFeeds_not_monotone_witness:
  "sublist [0x41, 0x03A3] [0x41, 0x03A3, 0x41 :: 16 word]
       \<and> sanitizedFeeds (\<lambda>u. Inl (TypeError [])) (lit ''/'')
           [[lit ''feed_title'' \<mapsto> [0x61, 0x03C3, 0x61], lit ''feed_url'' \<mapsto> lit ''http://a.com/rss'']]
         = Inr [\<lparr> id_feed = lit ''http://a.com/rss'', feed_title = [0x61, 0x03C3, 0x61],
                   feed_url = lit ''http://a.com/rss'', website_url = [],
                   favicon_url = Some (lit ''/'' @ lit ''default-favicon.png'') \<rparr>]
       \<and> filteredFeeds example_tables
           [\<lparr> id_feed = lit ''http://a.com/rss'', feed_title = [0x61, 0x03C3, 0x61],
               feed_url = lit ''http://a.com/rss'', website_url = [],
               favicon_url = Some (lit ''/'' @ lit ''default-favicon.png'') \<rparr>] [0x41, 0x03A3, 0x41]
         = [\<lparr> id_feed = lit ''http://a.com/rss'', feed_title = [0x61, 0x03C3, 0x61],
               feed_url = lit ''http://a.com/rss'', website_url = [],
               favicon_url = Some (lit ''/'' @ lit ''default-favicon.png'') \<rparr>]
       \<and> filteredFeeds example_tables
           [\<lparr> id_feed = lit ''http://a.com/rss'', feed_title = [0x61, 0x03C3, 0x61],
               feed_url = lit ''http://a.com/rss'', website_url = [],
               favicon_url = Some (lit ''/'' @ lit ''default-favicon.png'') \<rparr>] [0x41, 0x03A3]
         = []"
  by (rule filteredFeeds_not_monotone [OF example_tables_rows])

text \<open>
  Claim C4. For every list of feeds that the \<^verbatim>\<open>complete\<close> handler publishes, the empty
  search string gives back the whole list in its order: the handler never publishes a feed
  with an empty title, which the filter would drop.
\<close>

theorem empty_search_returns_all:
  assumes "sanitizedFeeds newURL BASE_URL results_data = Inr loaded"
  shows "filteredFeeds ucd loaded [] = loaded"
proof -
  have "\<forall>feed \<in> set loaded. truthy (feed_title feed)"
    using sanitizedFeeds_title [OF assms] by (simp add: truthy_def)
  then show ?thesis
    by (simp add: filteredFeeds_def toLowerCase_Nil includes_js_sublist)
qed

theorem empty_search_returns_all_witness:
  "filteredFeeds example_tables
     [\<lparr> id_feed = lit ''http://a.com/rss'', feed_title = lit ''ACME News'',
             feed_url = lit ''http://a.com/rss'', website_url = [],
             favicon_url = Some (lit ''/default-favicon.png'') \<rparr>,
          \<lparr> id_feed = lit ''http://b.com/rss'', feed_title = lit ''Untitled Feed'',
             feed_url = lit ''http://b.com/rss'', website_url = [],
             favicon_url = Some (lit ''/default-favicon.png'') \<rparr>] []
   = [\<lparr> id_feed = lit ''http://a.com/rss'', feed_title = lit ''ACME News'',
             feed_url = lit ''http://a.com/rss'', website_url = [],
             favicon_url = Some (lit ''/default-favicon.png'') \<rparr>,
          \<lparr> id_feed = lit ''http://b.com/rss'', feed_title = lit ''Untitled Feed'',
             feed_url = lit ''http://b.com/rss'', website_url = [],
             favicon_url = Some (lit ''/default-favicon.png'') \<rparr>]"
proof -
  have "sanitizedFeeds (\<lambda>u. Inl (TypeError [])) (lit ''/'')
     [[lit ''feed_title'' \<mapsto> lit ''ACME News'', lit ''feed_url'' \<mapsto> lit ''http://a.com/rss''],
      [lit ''feed_url'' \<mapsto> lit ''http://b.com/rss'']]
   = Inr [\<lparr> id_feed = lit ''http://a.com/rss'', feed_title = lit ''ACME News'',
             feed_url = lit ''http://a.com/rss'', website_url = [],
             favicon_url = Some (lit ''/default-favicon.png'') \<rparr>,
          \<lparr> id_feed = lit ''http://b.com/rss'', feed_title = lit ''Untitled Feed'',
             feed_url = lit ''http://b.com/rss'', website_url = [],
             favicon_url = Some (lit ''/default-favicon.png'') \<rparr>]"
    by (simp add: eval_defs)
  then show ?thesis by (rule empty_search_returns_all)
qed

lemma count_list_filter_le: "count_list (filter P xs) x \<le> count_list xs x"
  by (induction xs) auto

text \<open>
  Claim C10. For every list of feeds and every search string, the filtered list is a
  subsequence of the list: the surviving feeds keep their relative order, no feed occurs
  more often than in the list, and a list without duplicates stays without duplicates.
\<close>

theorem filteredFeeds_subsequence:
  "subseq (filteredFeeds ucd loaded search) loaded
   \<and> (\<forall>feed. count_list (filteredFeeds ucd loaded search) feed \<le> count_list loaded feed)
   \<and> (distinct loaded \<longrightarrow> distinct (filteredFeeds ucd loaded search))"
  by (simp add: filteredFeeds_def count_list_filter_le)

theorem filteredFeeds_subsequence_witness:
  "filteredFeeds example_tables
     [\<lparr> id_feed = lit ''http://a.com/rss'', feed_title = lit ''ACME News'',
             feed_url = lit ''http://a.com/rss'', website_url = [], favicon_url = None \<rparr>,
      \<lparr> id_feed = lit ''http://b.com/rss'', feed_title = lit ''Other'',
             feed_url = lit ''http://b.com/rss'', website_url = [], favicon_url = None \<rparr>]
     (lit ''OTHER'')
   = [\<lparr> id_feed = lit ''http://b.com/rss'', feed_title = lit ''Other'',
             feed_url = lit ''http://b.com/rss'', website_url = [], favicon_url = None \<rparr>]
   \<and> subseq
     [\<lparr> id_feed = lit ''http://b.com/rss'', feed_title = lit ''Other'',
             feed_url = lit ''http://b.com/rss'', website_url = [], favicon_url = None \<rparr>]
     [\<lparr> id_feed = lit ''http://a.com/rss'', feed_title = lit ''ACME News'',
             feed_url = lit ''http://a.com/rss'', website_url = [], favicon_url = None \<rparr>,
      \<lparr> id_feed = lit ''http://b.com/rss'', feed_title = lit ''Other'',
             feed_url = lit ''http://b.com/rss'', website_url = [], favicon_url = None \<rparr>]"
proof -
  let ?first = "\<lparr> id_feed = lit ''http://a.com/rss'', feed_title = lit ''ACME News'',
             feed_url = lit ''http://a.com/rss'', website_url = [], favicon_url = None \<rparr>"
  let ?second = "\<lparr> id_feed = lit ''http://b.com/rss'', feed_title = lit ''Other'',
             feed_url = lit ''http://b.com/rss'', website_url = [], favicon_url = None \<rparr>"
  have ev: "filteredFeeds example_tables [?first, ?second] (lit ''OTHER'') = [?second]"
    by (simp add: filteredFeeds_def truthy_def lit_def lower_defs example_tables_def)
  have "subseq (filteredFeeds example_tables [?first, ?second] (lit ''OTHER'')) [?first, ?second]"
    using filteredFeeds_subsequence [of example_tables "[?first, ?second]" "lit ''OTHER''"] by (rule conjunct1)
  with ev show ?thesis by simp
qed

section \<open>The subscribe link\<close>

lemma unescaped_basic_latin: "unescaped c \<Longrightarrow> unat c < 0x80"
  by (auto simp: unescaped_def ascii_upper_def ascii_lower_def word_le_nat_alt)

lemma unescaped_unat:
  "unescaped c \<longleftrightarrow>
     (65 \<le> unat c \<and> unat c \<le> 90) \<or> (97 \<le> unat c \<and> unat c \<le> 122) \<or> (48 \<le> unat c \<and> unat c \<le> 57)
     \<or> unat c \<in> {95, 45, 46, 33, 126, 42, 39, 40, 41}"
  by (simp add: unescaped_def ascii_upper_def ascii_lower_def word_le_nat_alt word_unat_eq_iff)

lemma unreserved_upt:
  "unreserved = map of_nat ([65..<91] @ [97..<123] @ [48..<58] @ [45, 95, 46, 33, 126, 42, 40, 41, 39])"
  by (simp add: unreserved_def lit_def)

lemma of_nat_image_unat:
  assumes "\<forall>n \<in> A. n < 65536"
  shows "(c :: 16 word) \<in> of_nat ` A \<longleftrightarrow> unat c \<in> A"
proof
  assume "c \<in> of_nat ` A"
  then obtain n where n: "n \<in> A" and c: "c = of_nat n" by blast
  from n assms have "n < 2 ^ LENGTH(16)" by simp
  with c have "unat c = n" by (simp add: of_nat_inverse)
  with n show "unat c \<in> A" by simp
next
  assume "unat c \<in> A"
  then have "of_nat (unat c) \<in> (of_nat ` A :: 16 word set)" by (rule imageI)
  then show "c \<in> of_nat ` A" by simp
qed

lemma unescaped_unreserved: "unescaped c = (c \<in> set unreserved)"
proof -
  let ?A = "{65..<91} \<union> {97..<123} \<union> {48..<58} \<union> {45, 95, 46, 33, 126, 42, 40, 41, 39 :: nat}"
  have "set unreserved = of_nat ` ?A"
    unfolding unreserved_upt set_map set_append set_upt by (simp add: Un_assoc)
  moreover have "\<forall>n \<in> ?A. n < 65536" by (simp add: ball_Un)
  ultimately have "c \<in> set unreserved \<longleftrightarrow> unat c \<in> ?A"
    using of_nat_image_unat [of ?A c] by simp
  also have "\<dots> \<longleftrightarrow> unescaped c"
    unfolding unescaped_unat by (simp add: less_Suc_eq_le [symmetric]) blast
  finally show ?thesis by simp
qed

lemma hex_upper_upt: "hex_upper = map of_nat ([48..<58] @ [65..<71])"
  by (simp add: hex_upper_def lit_def)

lemma hex_digit_upper: "n < 16 \<Longrightarrow> hex_digit n = hex_upper ! n"
  unfolding hex_upper_upt
  by (simp add: hex_digit_def nth_append del: upt_rec_numeral)

lemma utf8_octets: "cp < 0x110000 \<Longrightarrow> \<forall>b \<in> set (utf8 cp). b < 256"
  by (auto simp: utf8_def)

lemma mod_0x1000: "(cp::nat) mod 0x1000 = 0x40 * (cp div 0x40 mod 0x40) + cp mod 0x40"
  using mod_mult2_eq [of cp "0x40" "0x40"] by simp

lemma mod_0x40000: "(cp::nat) mod 0x40000 = 0x1000 * (cp div 0x1000 mod 0x40) + cp mod 0x1000"
  using mod_mult2_eq [of cp "0x1000" "0x40"] by simp

lemma three_octets: "(cp::nat) div 0x1000 * 0x1000 + cp div 0x40 mod 0x40 * 0x40 + cp mod 0x40 = cp"
proof -
  have "cp = cp div 0x1000 * 0x1000 + cp mod 0x1000" by simp
  also have "cp mod 0x1000 = cp div 0x40 mod 0x40 * 0x40 + cp mod 0x40"
    by (simp only: mod_0x1000 mult.commute)
  finally show ?thesis by (simp only: add.assoc)
qed

lemma four_octets: "(cp::nat) div 0x40000 * 0x40000 + cp div 0x1000 mod 0x40 * 0x1000 + cp div 0x40 mod 0x40 * 0x40
                + cp mod 0x40 = cp"
proof -
  have "cp = cp div 0x40000 * 0x40000 + cp mod 0x40000" by simp
  also have "cp mod 0x40000 = cp div 0x1000 mod 0x40 * 0x1000 + cp mod 0x1000"
    by (simp only: mod_0x40000 mult.commute)
  also have "cp mod 0x1000 = cp div 0x40 mod 0x40 * 0x40 + cp mod 0x40"
    by (simp only: mod_0x1000 mult.commute)
  finally show ?thesis by (simp only: add.assoc)
qed

lemma utf8_value_utf8:
  assumes "scalar_value cp"
  shows "utf8_value (utf8 cp) = Some cp"
proof -
  have two: "cp div 0x40 * 0x40 + cp mod 0x40 = cp" by simp
  note three = three_octets [of cp] and four = four_octets [of cp]
  have m: "x mod 0x40 \<le> 0x3F" for x :: nat
  proof -
    have "x mod 0x40 < 0x40" by (rule mod_less_divisor) simp
    then show ?thesis by simp
  qed
  have b: "cp < 0x110000"
    using assms by (auto simp: scalar_value_def)
  consider "cp < 0x80" | "0x80 \<le> cp" "cp < 0x800" | "0x800 \<le> cp" "cp < 0x10000"
    | "0x10000 \<le> cp" "cp < 0x110000"
    using b by linarith
  then show ?thesis
  proof cases
    case 1
    then show ?thesis by (simp add: utf8_def)
  next
    case 2
    then have "cp div 0x40 \<le> 0x1F" by simp
    with 2 two show ?thesis
      by (simp add: utf8_def continuation_def Let_def m)
  next
    case 3
    then have "cp div 0x1000 \<le> 0xF" by simp
    with 3 three assms show ?thesis
      by (simp add: utf8_def continuation_def Let_def m)
  next
    case 4
    then have "cp div 0x40000 \<le> 7" by simp
    with 4 four assms show ?thesis
      by (simp add: utf8_def continuation_def Let_def m)
  qed
qed

lemma split2:
  assumes "y < (0x40 :: nat)"
  shows "(x * 0x40 + y) div 0x40 = x" and "(x * 0x40 + y) mod 0x40 = y"
  using assms by simp_all

lemma split3:
  assumes "y < 0x40" and "z < (0x40 :: nat)"
  shows "(x * 0x1000 + y * 0x40 + z) div 0x1000 = x"
    and "(x * 0x1000 + y * 0x40 + z) div 0x40 mod 0x40 = y"
    and "(x * 0x1000 + y * 0x40 + z) mod 0x40 = z"
proof -
  have e: "x * 0x1000 + y * 0x40 + z = (x * 0x40 + y) * 0x40 + z" by simp
  have l: "y * 0x40 + z < 0x1000" using assms by simp
  have "x * 0x1000 + y * 0x40 + z = x * 0x1000 + (y * 0x40 + z)" by simp
  with l show "(x * 0x1000 + y * 0x40 + z) div 0x1000 = x" by simp
  show "(x * 0x1000 + y * 0x40 + z) div 0x40 mod 0x40 = y"
    by (simp only: e split2 [OF assms(2)] split2 [OF assms(1)])
  show "(x * 0x1000 + y * 0x40 + z) mod 0x40 = z"
    by (simp only: e split2 [OF assms(2)])
qed

lemma split4:
  assumes "y < 0x40" and "z < 0x40" and "w < (0x40 :: nat)"
  shows "(x * 0x40000 + y * 0x1000 + z * 0x40 + w) div 0x40000 = x"
    and "(x * 0x40000 + y * 0x1000 + z * 0x40 + w) div 0x1000 mod 0x40 = y"
    and "(x * 0x40000 + y * 0x1000 + z * 0x40 + w) div 0x40 mod 0x40 = z"
    and "(x * 0x40000 + y * 0x1000 + z * 0x40 + w) mod 0x40 = w"
proof -
  have e1: "x * 0x40000 + y * 0x1000 + z * 0x40 + w = ((x * 0x40 + y) * 0x40 + z) * 0x40 + w" by simp
  have e2: "x * 0x40000 + y * 0x1000 + z * 0x40 + w = (x * 0x40 + y) * 0x1000 + z * 0x40 + w" by simp
  have e3: "x * 0x40000 + y * 0x1000 + z * 0x40 + w = x * 0x40000 + (y * 0x1000 + z * 0x40 + w)" by simp
  have l3: "y * 0x1000 + z * 0x40 + w < 0x40000" using assms by simp
  show "(x * 0x40000 + y * 0x1000 + z * 0x40 + w) div 0x40000 = x"
    unfolding e3 using l3 by simp
  show "(x * 0x40000 + y * 0x1000 + z * 0x40 + w) div 0x1000 mod 0x40 = y"
    by (simp only: e2 split3(1) [OF assms(2,3)] split2 [OF assms(1)])
  show "(x * 0x40000 + y * 0x1000 + z * 0x40 + w) div 0x40 mod 0x40 = z"
    by (simp only: e1 split2 [OF assms(3)] split2 [OF assms(2)])
  show "(x * 0x40000 + y * 0x1000 + z * 0x40 + w) mod 0x40 = w"
    by (simp only: e1 split2 [OF assms(3)])
qed

lemma utf8_value_unique:
  assumes "utf8_value octets = Some cp"
  shows "octets = utf8 cp"
proof -
  have s: "n - 0x80 < 0x40" if "continuation n" for n
    using that by (auto simp: continuation_def)
  have r: "0x80 + (n - 0x80) = n" if "continuation n" for n
    using that by (auto simp: continuation_def)
  from assms show ?thesis
  proof (cases octets rule: utf8_value.cases)
    case (1 a)
    with assms show ?thesis by (simp add: utf8_def split: if_splits)
  next
    case (2 a b)
    with assms have a: "0xC0 \<le> a" "a \<le> 0xDF" and b: "continuation b"
      and v: "cp = (a - 0xC0) * 0x40 + (b - 0x80)" and l: "0x80 \<le> cp"
      by (auto simp: Let_def split: if_splits)
    from a s [OF b] have u: "cp < 0x800" unfolding v by simp
    have "cp div 0x40 = a - 0xC0" "cp mod 0x40 = b - 0x80"
      unfolding v by (rule split2 [OF s [OF b]])+
    with a r [OF b] l u 2 show ?thesis by (simp add: utf8_def)
  next
    case (3 a b c)
    with assms have a: "0xE0 \<le> a" "a \<le> 0xEF" and b: "continuation b" and c: "continuation c"
      and v: "cp = (a - 0xE0) * 0x1000 + (b - 0x80) * 0x40 + (c - 0x80)" and l: "0x800 \<le> cp"
      by (auto simp: Let_def split: if_splits)
    from a s [OF b] s [OF c] have u: "cp < 0x10000" unfolding v by simp
    have "cp div 0x1000 = a - 0xE0" "cp div 0x40 mod 0x40 = b - 0x80" "cp mod 0x40 = c - 0x80"
      unfolding v by (rule split3 [OF s [OF b] s [OF c]])+
    with a r [OF b] r [OF c] l u 3 show ?thesis by (simp add: utf8_def)
  next
    case (4 a b c d)
    with assms have a: "0xF0 \<le> a" "a \<le> 0xF7" and b: "continuation b" and c: "continuation c"
      and d: "continuation d"
      and v: "cp = (a - 0xF0) * 0x40000 + (b - 0x80) * 0x1000 + (c - 0x80) * 0x40 + (d - 0x80)"
      and l: "0x10000 \<le> cp"
      by (auto simp: Let_def split: if_splits)
    have "cp div 0x40000 = a - 0xF0" "cp div 0x1000 mod 0x40 = b - 0x80"
      "cp div 0x40 mod 0x40 = c - 0x80" "cp mod 0x40 = d - 0x80"
      unfolding v by (rule split4 [OF s [OF b] s [OF c] s [OF d]])+
    with a r [OF b] r [OF c] r [OF d] l 4 show ?thesis by (simp add: utf8_def)
  qed (use assms in simp_all)
qed

lemma escape_percent_escape:
  assumes "cp < 0x110000"
  shows "escape cp = percent_escape (utf8 cp)"
proof -
  have "percent octet = [0x25, hex_upper ! (octet div 16), hex_upper ! (octet mod 16)]"
    if "octet \<in> set (utf8 cp)" for octet
  proof -
    from that utf8_octets [OF assms] have "octet < 256" by blast
    then have "octet div 16 < 16" "octet mod 16 < 16" by simp_all
    then show ?thesis by (simp add: percent_def hex_digit_upper)
  qed
  then show ?thesis
    unfolding escape_def percent_escape_def by (simp cong: map_cong)
qed

lemma percent_encoding_of_unique:
  assumes "percent_encoding_of cp part" and "percent_encoding_of cp part'"
  shows "part = part'"
  using assms by (auto simp: percent_encoding_of_def dest!: utf8_value_unique split: if_splits)

lemma percent_encoding_of_code:
  assumes "scalar_value cp"
  shows "percent_encoding_of cp (if cp < 0x80 \<and> unescaped (of_nat cp) then [of_nat cp] else escape cp)"
proof -
  from assms have "cp < 0x110000" by (auto simp: scalar_value_def)
  then have "escape cp = percent_escape (utf8 cp)" by (rule escape_percent_escape)
  with utf8_value_utf8 [OF assms] show ?thesis
    by (auto simp: percent_encoding_of_def unescaped_unreserved)
qed

lemma unat_code_unit: "n < 0x10000 \<Longrightarrow> unat (of_nat n :: 16 word) = n"
  by (simp add: of_nat_inverse)

lemma encodeURIComponent_code_point:
  assumes "scalar_value cp"
  shows "encodeURIComponent (UTF16EncodeCodePoint cp @ rest) =
           (case encodeURIComponent rest of
              Inl e \<Rightarrow> Inl e
            | Inr r \<Rightarrow> Inr ((if cp < 0x80 \<and> unescaped (of_nat cp) then [of_nat cp] else escape cp) @ r))"
proof (cases "cp < 0x10000")
  case True
  then have u: "unat (of_nat cp :: 16 word) = cp" by (rule unat_code_unit)
  from assms True have s: "\<not> trailing_surrogate (of_nat cp)" "\<not> leading_surrogate (of_nat cp)"
    by (auto simp: scalar_value_def trailing_surrogate_def leading_surrogate_def word_le_nat_alt u)
  have b: "cp < 0x80" if "unescaped (of_nat cp :: 16 word)"
    using unescaped_basic_latin [OF that] by (simp add: u)
  from True s b show ?thesis
    by (auto simp: UTF16EncodeCodePoint_def u split: sum.splits)
next
  case False
  with assms have r: "0x10000 \<le> cp" "cp < 0x110000" by (auto simp: scalar_value_def)
  let ?h = "(cp - 0x10000) div 0x400 + 0xD800" and ?l = "(cp - 0x10000) mod 0x400 + 0xDC00"
  from r have "cp - 0x10000 < 0x100000" by simp
  then have "(cp - 0x10000) div 0x400 < 0x400" by simp
  then have h: "0xD800 \<le> ?h" "?h \<le> 0xDBFF" by simp_all
  have "(cp - 0x10000) mod 0x400 < 0x400" by (rule mod_less_divisor) simp
  then have l: "0xDC00 \<le> ?l" "?l \<le> 0xDFFF" by simp_all
  from h have uh: "unat (of_nat ?h :: 16 word) = ?h" by (intro unat_code_unit) simp
  from l have ul: "unat (of_nat ?l :: 16 word) = ?l" by (intro unat_code_unit) simp
  from h have lead: "leading_surrogate (of_nat ?h)" and nt: "\<not> trailing_surrogate (of_nat ?h)"
    unfolding leading_surrogate_def trailing_surrogate_def word_le_nat_alt uh by simp_all
  from l have trail: "trailing_surrogate (of_nat ?l)"
    unfolding trailing_surrogate_def word_le_nat_alt ul by simp
  have ne: "\<not> unescaped (of_nat ?h)"
  proof
    assume "unescaped (of_nat ?h :: 16 word)"
    then have "unat (of_nat ?h :: 16 word) < 0x80" by (rule unescaped_basic_latin)
    with h show False unfolding uh by simp
  qed
  have "(cp - 0x10000) div 0x400 * 0x400 + (cp - 0x10000) mod 0x400 = cp - 0x10000" by simp
  with r have pair: "surrogate_pair (of_nat ?h) (of_nat ?l) = cp"
    unfolding surrogate_pair_def uh ul by simp
  have e: "UTF16EncodeCodePoint cp = [of_nat ?h, of_nat ?l]"
    using False by (simp add: UTF16EncodeCodePoint_def)
  from r have nb: "\<not> cp < 0x80" by simp
  show ?thesis
    unfolding e using lead nt trail ne pair nb by (simp split: sum.splits)
qed

lemma encodeURIComponent_scalar_values:
  assumes "\<forall>cp \<in> set cps. scalar_value cp"
  shows "\<exists>parts. encodeURIComponent (CodePointsToString cps) = Inr (concat parts)
                \<and> list_all2 percent_encoding_of cps parts"
  using assms
proof (induction cps)
  case Nil
  show ?case by (simp add: CodePointsToString_def)
next
  case (Cons cp cps)
  then obtain parts where p: "encodeURIComponent (CodePointsToString cps) = Inr (concat parts)"
    and a: "list_all2 percent_encoding_of cps parts" by auto
  from Cons.prems have s: "scalar_value cp" by simp
  let ?part = "if cp < 0x80 \<and> unescaped (of_nat cp) then [of_nat cp] else escape cp"
  have "CodePointsToString (cp # cps) = UTF16EncodeCodePoint cp @ CodePointsToString cps"
    by (simp add: CodePointsToString_def)
  then have "encodeURIComponent (CodePointsToString (cp # cps)) = Inr (concat (?part # parts))"
    using encodeURIComponent_code_point [OF s, of "CodePointsToString cps"] p by simp
  moreover have "list_all2 percent_encoding_of (cp # cps) (?part # parts)"
    using percent_encoding_of_code [OF s] a by simp
  ultimately show ?case by blast
qed

lemma percent_encoding_of_parts:
  assumes "list_all2 percent_encoding_of cps parts" and "list_all2 percent_encoding_of cps parts'"
  shows "parts = parts'"
  using assms
proof (induction cps arbitrary: parts parts')
  case Nil
  then show ?case by simp
next
  case (Cons cp cps)
  then show ?case
    by (auto simp: list_all2_Cons1 dest: percent_encoding_of_unique)
qed

lemma CodePointsToString_StringToCodePoints: "CodePointsToString (StringToCodePoints u) = u"
proof (induction u rule: StringToCodePoints.induct)
  case 1
  show ?case by (simp add: CodePointsToString_def)
next
  case (2 c)
  have "unat c < 0x10000" using unsigned_less [of c, where ?'a = nat] by simp
  then show ?case by (simp add: CodePointsToString_def UTF16EncodeCodePoint_def)
next
  case (3 c d rest)
  have c: "unat c < 0x10000" using unsigned_less [of c, where ?'a = nat] by simp
  show ?case
  proof (cases "leading_surrogate c \<and> trailing_surrogate d")
    case True
    then have h: "0xD800 \<le> unat c" "unat c \<le> 0xDBFF" and l: "0xDC00 \<le> unat d" "unat d \<le> 0xDFFF"
      by (simp_all add: leading_surrogate_def trailing_surrogate_def word_le_nat_alt)
    define x y where "x = unat c - 0xD800" and "y = unat d - 0xDC00"
    from l have y: "y < 0x400" by (simp add: y_def)
    have p: "surrogate_pair c d = x * 0x400 + y + 0x10000"
      by (simp add: surrogate_pair_def x_def y_def)
    from y have "(x * 0x400 + y) div 0x400 = x" "(x * 0x400 + y) mod 0x400 = y" by simp_all
    with h l have "UTF16EncodeCodePoint (surrogate_pair c d) = [c, d]"
      unfolding p by (simp add: UTF16EncodeCodePoint_def x_def y_def)
    moreover from True have "StringToCodePoints (c # d # rest) = surrogate_pair c d # StringToCodePoints rest"
      by simp
    moreover from True 3 have "CodePointsToString (StringToCodePoints rest) = rest"
      by blast
    ultimately show ?thesis by (simp add: CodePointsToString_def)
  next
    case False
    then have "StringToCodePoints (c # d # rest) = unat c # StringToCodePoints (d # rest)"
      by auto
    moreover from False 3 have "CodePointsToString (StringToCodePoints (d # rest)) = d # rest"
      by blast
    ultimately show ?thesis
      using c by (simp add: CodePointsToString_def UTF16EncodeCodePoint_def)
  qed
qed

text \<open>
  Claim C6. For every feed URL \<open>u\<close> that is a string of Unicode scalar values, which is
  what the decoded CSV text consists of, \<^verbatim>\<open>getInoreaderUrl\<close> returns the template
  \<^verbatim>\<open>https://www.inoreader.com/search/feeds/\<close> followed by the percent-encodings of the
  code points of \<open>u\<close> in their order, and nothing else: an unreserved character as itself,
  every other code point as the octets of its UTF-8 form, each written \<^verbatim>\<open>%\<close> and two
  upper-case hexadecimal digits. A code point has one percent-encoding
  (\<open>percent_encoding_of_unique\<close>).
\<close>

theorem getInoreaderUrl_percent_encoding:
  assumes "\<forall>cp \<in> set (StringToCodePoints u). scalar_value cp"
  shows "\<exists>parts. getInoreaderUrl u = Inr (lit ''https://www.inoreader.com/search/feeds/'' @ concat parts)
                \<and> list_all2 percent_encoding_of (StringToCodePoints u) parts"
proof -
  from encodeURIComponent_scalar_values [OF assms] obtain parts
    where "encodeURIComponent u = Inr (concat parts)"
      and "list_all2 percent_encoding_of (StringToCodePoints u) parts"
    unfolding CodePointsToString_StringToCodePoints by blast
  then show ?thesis by (auto simp: getInoreaderUrl_def)
qed

theorem getInoreaderUrl_percent_encoding_witness:
  "StringToCodePoints (lit ''a/?~'' @ [0x7F, 0x80, 0xE9, 0x7FF, 0x800, 0x20AC, 0xFFFF, 0xD800, 0xDC00,
                                        0xD83D, 0xDE00, 0xDBFF, 0xDFFF])
     = [0x61, 0x2F, 0x3F, 0x7E, 0x7F, 0x80, 0xE9, 0x7FF, 0x800, 0x20AC, 0xFFFF, 0x10000, 0x1F600, 0x10FFFF]
   \<and> list_all2 percent_encoding_of
         [0x61, 0x2F, 0x3F, 0x7E, 0x7F, 0x80, 0xE9, 0x7FF, 0x800, 0x20AC, 0xFFFF, 0x10000, 0x1F600, 0x10FFFF]
         [lit ''a'', lit ''%2F'', lit ''%3F'', lit ''~'', lit ''%7F'', lit ''%C2%80'', lit ''%C3%A9'',
          lit ''%DF%BF'', lit ''%E0%A0%80'', lit ''%E2%82%AC'', lit ''%EF%BF%BF'', lit ''%F0%90%80%80'',
          lit ''%F0%9F%98%80'', lit ''%F4%8F%BF%BF'']
   \<and> getInoreaderUrl (lit ''a/?~'' @ [0x7F, 0x80, 0xE9, 0x7FF, 0x800, 0x20AC, 0xFFFF, 0xD800, 0xDC00,
                                      0xD83D, 0xDE00, 0xDBFF, 0xDFFF])
     = Inr (lit ''https://www.inoreader.com/search/feeds/''
            @ lit ''a%2F%3F~%7F%C2%80%C3%A9%DF%BF%E0%A0%80%E2%82%AC%EF%BF%BF%F0%90%80%80%F0%9F%98%80%F4%8F%BF%BF'')"
proof -
  let ?u = "lit ''a/?~'' @ [0x7F, 0x80, 0xE9, 0x7FF, 0x800, 0x20AC, 0xFFFF, 0xD800, 0xDC00,
                            0xD83D, 0xDE00, 0xDBFF, 0xDFFF]"
  let ?cps = "[0x61, 0x2F, 0x3F, 0x7E, 0x7F, 0x80, 0xE9, 0x7FF, 0x800, 0x20AC, 0xFFFF, 0x10000, 0x1F600,
               0x10FFFF] :: nat list"
  let ?parts = "[lit ''a'', lit ''%2F'', lit ''%3F'', lit ''~'', lit ''%7F'', lit ''%C2%80'', lit ''%C3%A9'',
          lit ''%DF%BF'', lit ''%E0%A0%80'', lit ''%E2%82%AC'', lit ''%EF%BF%BF'', lit ''%F0%90%80%80'',
          lit ''%F0%9F%98%80'', lit ''%F4%8F%BF%BF'']"
  have cps: "StringToCodePoints ?u = ?cps"
    by (simp add: lit_def leading_surrogate_def trailing_surrogate_def surrogate_pair_def)
  have "\<forall>cp \<in> set ?cps. scalar_value cp"
    by (simp add: scalar_value_def)
  then have sc: "\<forall>cp \<in> set (StringToCodePoints ?u). scalar_value cp"
    by (simp only: cps)
  from getInoreaderUrl_percent_encoding [OF sc] obtain parts
    where url: "getInoreaderUrl ?u = Inr (lit ''https://www.inoreader.com/search/feeds/'' @ concat parts)"
      and enc: "list_all2 percent_encoding_of ?cps parts"
    unfolding cps by blast
  have o: "utf8_value [0x2F] = Some 0x2F" "utf8_value [0x3F] = Some 0x3F" "utf8_value [0x7F] = Some 0x7F"
    "utf8_value [0xC2, 0x80] = Some 0x80" "utf8_value [0xC3, 0xA9] = Some 0xE9"
    "utf8_value [0xDF, 0xBF] = Some 0x7FF" "utf8_value [0xE0, 0xA0, 0x80] = Some 0x800"
    "utf8_value [0xE2, 0x82, 0xAC] = Some 0x20AC" "utf8_value [0xEF, 0xBF, 0xBF] = Some 0xFFFF"
    "utf8_value [0xF0, 0x90, 0x80, 0x80] = Some 0x10000"
    "utf8_value [0xF0, 0x9F, 0x98, 0x80] = Some 0x1F600"
    "utf8_value [0xF4, 0x8F, 0xBF, 0xBF] = Some 0x10FFFF"
    by (simp_all add: continuation_def scalar_value_def)
  have e: "percent_escape [0x2F] = lit ''%2F''" "percent_escape [0x3F] = lit ''%3F''"
    "percent_escape [0x7F] = lit ''%7F''"
    "percent_escape [0xC2, 0x80] = lit ''%C2%80''" "percent_escape [0xC3, 0xA9] = lit ''%C3%A9''"
    "percent_escape [0xDF, 0xBF] = lit ''%DF%BF''" "percent_escape [0xE0, 0xA0, 0x80] = lit ''%E0%A0%80''"
    "percent_escape [0xE2, 0x82, 0xAC] = lit ''%E2%82%AC''"
    "percent_escape [0xEF, 0xBF, 0xBF] = lit ''%EF%BF%BF''"
    "percent_escape [0xF0, 0x90, 0x80, 0x80] = lit ''%F0%90%80%80''"
    "percent_escape [0xF0, 0x9F, 0x98, 0x80] = lit ''%F0%9F%98%80''"
    "percent_escape [0xF4, 0x8F, 0xBF, 0xBF] = lit ''%F4%8F%BF%BF''"
    by (simp_all add: percent_escape_def hex_upper_def lit_def)
  have k: "of_nat 0x61 \<in> set unreserved" "of_nat 0x7E \<in> set unreserved"
    "of_nat 0x2F \<notin> set unreserved" "of_nat 0x3F \<notin> set unreserved" "of_nat 0x7F \<notin> set unreserved"
    by (simp_all add: unreserved_def lit_def)
  have p: "percent_encoding_of 0x61 (lit ''a'')" "percent_encoding_of 0x7E (lit ''~'')"
    using k by (simp_all add: percent_encoding_of_def lit_def)
  have q: "percent_encoding_of 0x2F (lit ''%2F'')" "percent_encoding_of 0x3F (lit ''%3F'')"
    "percent_encoding_of 0x7F (lit ''%7F'')"
    unfolding percent_encoding_of_def using k o e by (simp_all, metis+)
  have r: "percent_encoding_of 0x80 (lit ''%C2%80'')" "percent_encoding_of 0xE9 (lit ''%C3%A9'')"
    "percent_encoding_of 0x7FF (lit ''%DF%BF'')" "percent_encoding_of 0x800 (lit ''%E0%A0%80'')"
    "percent_encoding_of 0x20AC (lit ''%E2%82%AC'')" "percent_encoding_of 0xFFFF (lit ''%EF%BF%BF'')"
    "percent_encoding_of 0x10000 (lit ''%F0%90%80%80'')"
    "percent_encoding_of 0x1F600 (lit ''%F0%9F%98%80'')"
    "percent_encoding_of 0x10FFFF (lit ''%F4%8F%BF%BF'')"
    unfolding percent_encoding_of_def using o e by (simp_all, metis+)
  have all: "list_all2 percent_encoding_of ?cps ?parts"
    using p q r by simp
  from enc all have "parts = ?parts" by (rule percent_encoding_of_parts)
  with url have "getInoreaderUrl ?u
     = Inr (lit ''https://www.inoreader.com/search/feeds/''
            @ lit ''a%2F%3F~%7F%C2%80%C3%A9%DF%BF%E0%A0%80%E2%82%AC%EF%BF%BF%F0%90%80%80%F0%9F%98%80%F4%8F%BF%BF'')"
    by (simp add: lit_def)
  with cps all show ?thesis by blast
qed

text \<open>
  Outside these strings: a string with an unpaired surrogate has no UTF-8 form, and
  \<^verbatim>\<open>encodeURIComponent\<close> throws a \<^verbatim>\<open>URIError\<close>, whatever else the string holds.
\<close>

lemma surrogate_code_unit:
  "\<not> scalar_value (unat c) \<longleftrightarrow> leading_surrogate c \<or> trailing_surrogate c"
proof -
  have "unat c < 0x10000" using unsigned_less [of c, where ?'a = nat] by simp
  then show ?thesis
    by (auto simp: scalar_value_def leading_surrogate_def trailing_surrogate_def word_le_nat_alt)
qed

lemma scalar_value_surrogate_pair:
  assumes "leading_surrogate c" and "trailing_surrogate d"
  shows "scalar_value (surrogate_pair c d)"
proof -
  from assms have "unat c \<le> 0xDBFF" "unat d \<le> 0xDFFF"
    by (simp_all add: leading_surrogate_def trailing_surrogate_def word_le_nat_alt)
  then have "unat c - 0xD800 \<le> 0x3FF" "unat d - 0xDC00 \<le> 0x3FF"
    by linarith+
  then have "(unat c - 0xD800) * 0x400 + (unat d - 0xDC00) \<le> 0x3FF * 0x400 + 0x3FF"
    by (intro add_mono mult_right_mono) simp_all
  then show ?thesis by (simp add: scalar_value_def surrogate_pair_def)
qed

lemma not_unescaped_surrogate:
  "leading_surrogate c \<or> trailing_surrogate c \<Longrightarrow> \<not> unescaped c"
  using unescaped_basic_latin [of c]
  by (auto simp: leading_surrogate_def trailing_surrogate_def word_le_nat_alt)

lemma encodeURIComponent_unpaired_surrogate:
  assumes "\<exists>cp \<in> set (StringToCodePoints u). \<not> scalar_value cp"
  shows "encodeURIComponent u = Inl URIError"
  using assms
proof (induction u rule: StringToCodePoints.induct)
  case 1
  then show ?case by simp
next
  case (2 c)
  then have "leading_surrogate c \<or> trailing_surrogate c" by (simp add: surrogate_code_unit)
  then show ?case using not_unescaped_surrogate [of c] by auto
next
  case (3 c d rest)
  show ?case
  proof (cases "leading_surrogate c \<and> trailing_surrogate d")
    case True
    then have "StringToCodePoints (c # d # rest) = surrogate_pair c d # StringToCodePoints rest"
      by simp
    with 3(3) True scalar_value_surrogate_pair [of c d]
    have "\<exists>cp \<in> set (StringToCodePoints rest). \<not> scalar_value cp" by auto
    with True 3(1) have "encodeURIComponent rest = Inl URIError" by blast
    moreover from True have "\<not> unescaped c" "\<not> trailing_surrogate c"
      using not_unescaped_surrogate [of c]
      by (auto simp: leading_surrogate_def trailing_surrogate_def word_le_nat_alt)
    ultimately show ?thesis using True by simp
  next
    case False
    then have e: "StringToCodePoints (c # d # rest) = unat c # StringToCodePoints (d # rest)"
      by auto
    show ?thesis
    proof (cases "scalar_value (unat c)")
      case True
      with 3(3) e have "\<exists>cp \<in> set (StringToCodePoints (d # rest)). \<not> scalar_value cp" by auto
      with False 3(2) have "encodeURIComponent (d # rest) = Inl URIError" by blast
      moreover from True have "\<not> leading_surrogate c" "\<not> trailing_surrogate c"
        using surrogate_code_unit [of c] by auto
      ultimately show ?thesis by simp
    next
      case s: False
      then have "leading_surrogate c \<or> trailing_surrogate c" by (simp add: surrogate_code_unit)
      with False show ?thesis using not_unescaped_surrogate [of c] by auto
    qed
  qed
qed

lemma getInoreaderUrl_unpaired_surrogate:
  assumes "\<exists>cp \<in> set (StringToCodePoints u). \<not> scalar_value cp"
  shows "getInoreaderUrl u = Inl URIError"
  using encodeURIComponent_unpaired_surrogate [OF assms] by (simp add: getInoreaderUrl_def)

lemma getInoreaderUrl_lone_surrogate: "getInoreaderUrl [0xD800] = Inl URIError"
  by (rule getInoreaderUrl_unpaired_surrogate) (simp add: scalar_value_def)

section \<open>The load sequence\<close>

lemma loadFeeds_requests:
  "requests (snd (loadFeeds newURL BASE_URL Papa_parse (st, net))) =
     requests net @ [BASE_URL @ lit ''feeds_deduped.csv'']"
  by (simp add: loadFeeds_def fetch_def try_catch_def Let_def
      split: fetch_outcome.splits body_outcome.splits Papa_callback.splits sum.splits)

lemma loadFeeds_unreachable:
  assumes "responses net (length (requests net)) = Rejected err
           \<or> (\<exists>r. responses net (length (requests net)) = Resolved r \<and> \<not> ok r)
           \<or> (\<exists>r. responses net (length (requests net)) = Resolved r \<and> ok r \<and> body r = Body_rejected err)"
  shows "\<exists>msg. msg \<noteq> []
           \<and> fst (loadFeeds newURL BASE_URL Papa_parse (st, net)) = st\<lparr>error := Some msg, loading := False\<rparr>"
  using assms
  by (auto simp: loadFeeds_def fetch_def try_catch_def Let_def lit_def)

lemma loadFeeds_parse_error:
  assumes "responses net (length (requests net)) = Resolved r" and "ok r"
    and "body r = Body_text fileData" and "Papa_parse fileData = Parse_error m"
  shows "fst (loadFeeds newURL BASE_URL Papa_parse (st, net)) =
           st\<lparr>error := Some (lit ''Error parsing CSV: '' @ m), loading := False\<rparr>"
  using assms
  by (simp add: loadFeeds_def fetch_def try_catch_def Let_def)

lemma loadFeeds_complete:
  assumes "responses net (length (requests net)) = Resolved r" and "ok r"
    and "body r = Body_text fileData" and "Papa_parse fileData = Complete results"
    and "sanitizedFeeds newURL BASE_URL (data results) = Inr sanitized"
  shows "fst (loadFeeds newURL BASE_URL Papa_parse (st, net)) = st\<lparr>feeds := sanitized, loading := False\<rparr>"
  using assms
  by (simp add: loadFeeds_def fetch_def try_catch_def Let_def)

lemma loadFeeds_errors_unread:
  "loadFeeds newURL BASE_URL
     (\<lambda>fileData. case Papa_parse fileData of
                    Complete results \<Rightarrow> Complete (results\<lparr>errors := reported, meta := m\<rparr>)
                  | Parse_error e \<Rightarrow> Parse_error e)
   = loadFeeds newURL BASE_URL Papa_parse"
  by (rule ext)
    (simp add: loadFeeds_def fetch_def try_catch_def Let_def
      split: prod.splits fetch_outcome.splits body_outcome.splits Papa_callback.splits sum.splits)

text \<open>
  Claim C7 asks that a malformed CSV resource ends in the error state and never in a
  partially populated list. For an unreachable resource the lemmas above give the error
  state, one request and an untouched list. For a malformed text they do not: given a
  string, the parser reports what is wrong with it in \<^verbatim>\<open>results.errors\<close> and calls
  \<^verbatim>\<open>complete\<close>, and the \<^verbatim>\<open>complete\<close> handler never reads \<^verbatim>\<open>results.errors\<close>
  (\<open>loadFeeds_errors_unread\<close>). The CSV text below has three rows after the header; the
  quote that opens the URL of the second row is never closed. The parser hands over two
  rows, the second with the rest of the text as its URL, and the error
  \<^verbatim>\<open>MissingQuotes\<close>. Whatever \<^verbatim>\<open>results.errors\<close> and \<^verbatim>\<open>results.meta\<close> hold, \<^verbatim>\<open>loadFeeds\<close>
  publishes the two feeds, the third row lost in the URL of the second, leaves \<^verbatim>\<open>error\<close>
  unset and makes one request.
\<close>

theorem loadFeeds_ignores_results_errors:
  assumes "responses net (length (requests net)) = Resolved r" and "ok r"
    and "body r = Body_text (lit ''feed_title,feed_url'' @ [0x0A] @ lit ''ACME News,http://a.com/rss'' @ [0x0A]
                             @ lit ''Other,'' @ [0x22] @ lit ''http://b.com/rss'' @ [0x0A]
                             @ lit ''Third,http://c.com/rss'')"
    and "Papa_parse (lit ''feed_title,feed_url'' @ [0x0A] @ lit ''ACME News,http://a.com/rss'' @ [0x0A]
                     @ lit ''Other,'' @ [0x22] @ lit ''http://b.com/rss'' @ [0x0A]
                     @ lit ''Third,http://c.com/rss'')
         = Complete \<lparr> data = [[lit ''feed_title'' \<mapsto> lit ''ACME News'',
                                  lit ''feed_url'' \<mapsto> lit ''http://a.com/rss''],
                                 [lit ''feed_title'' \<mapsto> lit ''Other'',
                                  lit ''feed_url'' \<mapsto> lit ''http://b.com/rss'' @ [0x0A]
                                                         @ lit ''Third,http://c.com/rss'']],
                         errors = reported, meta = m \<rparr>"
  shows "loadFeeds newURL BASE_URL Papa_parse (initial, net)
         = (\<lparr> feeds = [\<lparr> id_feed = lit ''http://a.com/rss'', feed_title = lit ''ACME News'',
                           feed_url = lit ''http://a.com/rss'', website_url = [],
                           favicon_url = Some (BASE_URL @ lit ''default-favicon.png'') \<rparr>,
                         \<lparr> id_feed = lit ''http://b.com/rss'' @ [0x0A] @ lit ''Third,http://c.com/rss'',
                           feed_title = lit ''Other'',
                           feed_url = lit ''http://b.com/rss'' @ [0x0A] @ lit ''Third,http://c.com/rss'',
                           website_url = [],
                           favicon_url = Some (BASE_URL @ lit ''default-favicon.png'') \<rparr>],
              loading = False, error = None, searchTerm = [] \<rparr>,
            net\<lparr>requests := requests net @ [BASE_URL @ lit ''feeds_deduped.csv'']\<rparr>)"
proof -
  have "sanitizedFeeds newURL BASE_URL
          [[lit ''feed_title'' \<mapsto> lit ''ACME News'', lit ''feed_url'' \<mapsto> lit ''http://a.com/rss''],
           [lit ''feed_title'' \<mapsto> lit ''Other'',
            lit ''feed_url'' \<mapsto> lit ''http://b.com/rss'' @ [0x0A] @ lit ''Third,http://c.com/rss'']]
        = Inr [\<lparr> id_feed = lit ''http://a.com/rss'', feed_title = lit ''ACME News'',
                           feed_url = lit ''http://a.com/rss'', website_url = [],
                           favicon_url = Some (BASE_URL @ lit ''default-favicon.png'') \<rparr>,
                         \<lparr> id_feed = lit ''http://b.com/rss'' @ [0x0A] @ lit ''Third,http://c.com/rss'',
                           feed_title = lit ''Other'',
                           feed_url = lit ''http://b.com/rss'' @ [0x0A] @ lit ''Third,http://c.com/rss'',
                           website_url = [],
                           favicon_url = Some (BASE_URL @ lit ''default-favicon.png'') \<rparr>]"
    by (simp add: eval_defs)
  with assms show ?thesis
    by (simp add: loadFeeds_def fetch_def try_catch_def initial_def Let_def)
qed

theorem loadFeeds_ignores_results_errors_witness:
  "loadFeeds (\<lambda>u. Inl (TypeError [])) (lit ''/'')
     (\<lambda>fileData.
        if fileData = lit ''feed_title,feed_url'' @ [0x0A] @ lit ''ACME News,http://a.com/rss'' @ [0x0A]
                      @ lit ''Other,'' @ [0x22] @ lit ''http://b.com/rss'' @ [0x0A]
                      @ lit ''Third,http://c.com/rss''
        then Complete \<lparr> data = [[lit ''feed_title'' \<mapsto> lit ''ACME News'',
                                   lit ''feed_url'' \<mapsto> lit ''http://a.com/rss''],
                                  [lit ''feed_title'' \<mapsto> lit ''Other'',
                                   lit ''feed_url'' \<mapsto> lit ''http://b.com/rss'' @ [0x0A]
                                                          @ lit ''Third,http://c.com/rss'']],
                         errors = [lit ''Quoted field unterminated''], meta = lit '','' \<rparr>
        else Complete \<lparr> data = [], errors = [], meta = lit '','' \<rparr>)
     (initial,
      \<lparr> responses = (\<lambda>n. Resolved \<lparr> ok = True, status = 200,
            body = Body_text (lit ''feed_title,feed_url'' @ [0x0A] @ lit ''ACME News,http://a.com/rss'' @ [0x0A]
                              @ lit ''Other,'' @ [0x22] @ lit ''http://b.com/rss'' @ [0x0A]
                              @ lit ''Third,http://c.com/rss'') \<rparr>),
        requests = [] \<rparr>)
   = (\<lparr> feeds = [\<lparr> id_feed = lit ''http://a.com/rss'', feed_title = lit ''ACME News'',
                     feed_url = lit ''http://a.com/rss'', website_url = [],
                     favicon_url = Some (lit ''/'' @ lit ''default-favicon.png'') \<rparr>,
                   \<lparr> id_feed = lit ''http://b.com/rss'' @ [0x0A] @ lit ''Third,http://c.com/rss'',
                     feed_title = lit ''Other'',
                     feed_url = lit ''http://b.com/rss'' @ [0x0A] @ lit ''Third,http://c.com/rss'',
                     website_url = [],
                     favicon_url = Some (lit ''/'' @ lit ''default-favicon.png'') \<rparr>],
        loading = False, error = None, searchTerm = [] \<rparr>,
      \<lparr> responses = (\<lambda>n. Resolved \<lparr> ok = True, status = 200,
            body = Body_text (lit ''feed_title,feed_url'' @ [0x0A] @ lit ''ACME News,http://a.com/rss'' @ [0x0A]
                              @ lit ''Other,'' @ [0x22] @ lit ''http://b.com/rss'' @ [0x0A]
                              @ lit ''Third,http://c.com/rss'') \<rparr>),
        requests = [lit ''/'' @ lit ''feeds_deduped.csv''] \<rparr>)"
proof -
  let ?csv = "lit ''feed_title,feed_url'' @ [0x0A] @ lit ''ACME News,http://a.com/rss'' @ [0x0A]
              @ lit ''Other,'' @ [0x22] @ lit ''http://b.com/rss'' @ [0x0A] @ lit ''Third,http://c.com/rss''"
  let ?r = "\<lparr> ok = True, status = 200, body = Body_text ?csv \<rparr>"
  let ?net = "\<lparr> responses = (\<lambda>n. Resolved ?r), requests = [] \<rparr>"
  let ?Papa = "\<lambda>fileData.
        if fileData = ?csv
        then Complete \<lparr> data = [[lit ''feed_title'' \<mapsto> lit ''ACME News'',
                                   lit ''feed_url'' \<mapsto> lit ''http://a.com/rss''],
                                  [lit ''feed_title'' \<mapsto> lit ''Other'',
                                   lit ''feed_url'' \<mapsto> lit ''http://b.com/rss'' @ [0x0A]
                                                          @ lit ''Third,http://c.com/rss'']],
                         errors = [lit ''Quoted field unterminated''], meta = lit '','' \<rparr>
        else Complete \<lparr> data = [], errors = [], meta = lit '','' \<rparr>"
  have a: "responses ?net (length (requests ?net)) = Resolved ?r" by simp
  have b: "ok ?r" by simp
  have c: "body ?r = Body_text ?csv" by simp
  have d: "?Papa ?csv = Complete \<lparr> data = [[lit ''feed_title'' \<mapsto> lit ''ACME News'',
                                   lit ''feed_url'' \<mapsto> lit ''http://a.com/rss''],
                                  [lit ''feed_title'' \<mapsto> lit ''Other'',
                                   lit ''feed_url'' \<mapsto> lit ''http://b.com/rss'' @ [0x0A]
                                                          @ lit ''Third,http://c.com/rss'']],
                         errors = [lit ''Quoted field unterminated''], meta = lit '','' \<rparr>"
    by (simp only: if_True refl)
  show ?thesis
    using loadFeeds_ignores_results_errors [of ?net ?r ?Papa _ _ "\<lambda>u. Inl (TypeError [])" "lit ''/''", OF a b c d]
    by simp
qed

end
